theory Spec2Isabelle
  imports Complex_Main "HOL-Library.Word" "HOL-Library.Log_Nat"
begin

section \<open>Go's numeric types\<close>

text \<open>
  \<^verbatim>\<open>uint32\<close> is \<open>32 word\<close>: \<open>+\<close> and \<open>-\<close> wrap modulo \<open>2 ^ 32\<close>, as Go's do.

  \<^verbatim>\<open>int\<close> is \<open>int\<close>. The handler only compares its \<^verbatim>\<open>int\<close> inputs, copies them, and adds or
  subtracts one under a guard that keeps the result between two values that are already
  there (\<^verbatim>\<open>dr++\<close> only below \<^verbatim>\<open>maxDR\<close>, \<^verbatim>\<open>txPowerIndex--\<close> only above 0, \<^verbatim>\<open>nStep\<close> towards
  0, \<^verbatim>\<open>count++\<close> at most once per history entry), so no \<^verbatim>\<open>int\<close> operation of the program
  can overflow.
\<close>

type_synonym uint32 = "32 word"

subsection \<open>float32\<close>

text \<open>
  A \<^verbatim>\<open>float32\<close> is an IEEE 754 binary32 value: a NaN, an infinity, or a finite number
  \<open>m * 2 ^ e\<close> with \<open>\<bar>m\<bar> < 2 ^ 24\<close> and \<open>-149 \<le> e \<le> 104\<close>, carried here by its exact
  rational value. The two zeros are one value \<open>Fin 0\<close>: the program compares floats,
  subtracts them, multiplies by 100, divides by 3 and by a converted length, and
  truncates to \<^verbatim>\<open>int\<close>; none of these tells \<open>-0\<close> from \<open>+0\<close>, and no divisor of the program
  is a negative zero.
\<close>

datatype float32 = NaN | PosInf | NegInf | Fin rat

definition round_half_even :: "rat \<Rightarrow> int" where
  "round_half_even x =
     (let f = \<lfloor>x\<rfloor>; d = x - of_int f
      in if d < 1 / 2 then f else if 1 / 2 < d then f + 1 else if even f then f else f + 1)"

text \<open>The exponent \<open>e\<close> with \<open>2 ^ e \<le> x < 2 ^ (e + 1)\<close>, for \<open>x > 0\<close>.\<close>

definition floor_log2 :: "rat \<Rightarrow> int" where
  "floor_log2 x =
     (case quotient_of x of (a, b) \<Rightarrow>
        let e = bitlen a - bitlen b in if 2 powi e \<le> x then e else e - 1)"

text \<open>
  Rounding of an exact result to the nearest binary32 value, ties to even: 24 significant
  bits for a normal number, a unit in the last place of \<open>2 ^ -149\<close> below \<open>2 ^ -126\<close>,
  an infinity when the rounded magnitude reaches \<open>2 ^ 128\<close>.
\<close>

definition round32 :: "rat \<Rightarrow> float32" where
  "round32 x =
     (if x = 0 then Fin 0
      else
        let a = \<bar>x\<bar>;
            e = max (floor_log2 a) (- 126);
            ulp = 2 powi (e - 23);
            r = of_int (round_half_even (a / ulp)) * ulp
        in if 2 ^ 128 \<le> r then (if x < 0 then NegInf else PosInf)
           else Fin (if x < 0 then - r else r))"

text \<open>A finite value of the model is a binary32 value when rounding leaves it alone.\<close>

definition is_float32 :: "float32 \<Rightarrow> bool" where
  "is_float32 x = (case x of Fin q \<Rightarrow> round32 q = Fin q | _ \<Rightarrow> True)"

fun f32_lt :: "float32 \<Rightarrow> float32 \<Rightarrow> bool" where
  "f32_lt NaN _ = False"
| "f32_lt _ NaN = False"
| "f32_lt PosInf _ = False"
| "f32_lt NegInf NegInf = False"
| "f32_lt NegInf _ = True"
| "f32_lt (Fin a) PosInf = True"
| "f32_lt (Fin a) NegInf = False"
| "f32_lt (Fin a) (Fin b) = (a < b)"

text \<open>\<open>x \<le> y\<close> on \<^verbatim>\<open>float32\<close>; the program has no such comparison, the bands of the loss table do.\<close>

fun f32_le :: "float32 \<Rightarrow> float32 \<Rightarrow> bool" where
  "f32_le NaN _ = False"
| "f32_le _ NaN = False"
| "f32_le NegInf _ = True"
| "f32_le PosInf PosInf = True"
| "f32_le PosInf _ = False"
| "f32_le (Fin a) PosInf = True"
| "f32_le (Fin a) NegInf = False"
| "f32_le (Fin a) (Fin b) = (a \<le> b)"

fun f32_sub :: "float32 \<Rightarrow> float32 \<Rightarrow> float32" where
  "f32_sub NaN _ = NaN"
| "f32_sub _ NaN = NaN"
| "f32_sub PosInf PosInf = NaN"
| "f32_sub PosInf _ = PosInf"
| "f32_sub NegInf NegInf = NaN"
| "f32_sub NegInf _ = NegInf"
| "f32_sub (Fin a) PosInf = NegInf"
| "f32_sub (Fin a) NegInf = PosInf"
| "f32_sub (Fin a) (Fin b) = round32 (a - b)"

fun f32_mul :: "float32 \<Rightarrow> float32 \<Rightarrow> float32" where
  "f32_mul NaN _ = NaN"
| "f32_mul _ NaN = NaN"
| "f32_mul PosInf PosInf = PosInf"
| "f32_mul PosInf NegInf = NegInf"
| "f32_mul NegInf PosInf = NegInf"
| "f32_mul NegInf NegInf = PosInf"
| "f32_mul PosInf (Fin b) = (if b = 0 then NaN else if b < 0 then NegInf else PosInf)"
| "f32_mul NegInf (Fin b) = (if b = 0 then NaN else if b < 0 then PosInf else NegInf)"
| "f32_mul (Fin a) PosInf = (if a = 0 then NaN else if a < 0 then NegInf else PosInf)"
| "f32_mul (Fin a) NegInf = (if a = 0 then NaN else if a < 0 then PosInf else NegInf)"
| "f32_mul (Fin a) (Fin b) = round32 (a * b)"

text \<open>
  Division. A zero divisor stands for \<open>+0\<close> (the only zero a divisor of this program can
  be: a length converted to \<^verbatim>\<open>float32\<close>).
\<close>

fun f32_div :: "float32 \<Rightarrow> float32 \<Rightarrow> float32" where
  "f32_div NaN _ = NaN"
| "f32_div _ NaN = NaN"
| "f32_div PosInf (Fin b) = (if b < 0 then NegInf else PosInf)"
| "f32_div NegInf (Fin b) = (if b < 0 then PosInf else NegInf)"
| "f32_div PosInf _ = NaN"
| "f32_div NegInf _ = NaN"
| "f32_div (Fin a) PosInf = Fin 0"
| "f32_div (Fin a) NegInf = Fin 0"
| "f32_div (Fin a) (Fin b) =
     (if b = 0 then (if a = 0 then NaN else if a < 0 then NegInf else PosInf)
      else round32 (a / b))"

text \<open>\<^verbatim>\<open>float32(n)\<close> for an \<^verbatim>\<open>int\<close> and for a \<^verbatim>\<open>uint32\<close>.\<close>

definition f32_of_int :: "int \<Rightarrow> float32" where
  "f32_of_int n = round32 (of_int n)"

definition f32_of_uint32 :: "uint32 \<Rightarrow> float32" where
  "f32_of_uint32 w = round32 (of_int (uint w))"

text \<open>
  \<^verbatim>\<open>int(x)\<close> for a \<^verbatim>\<open>float32\<close>: the fraction is discarded. When the truncated value is not
  a 64-bit \<^verbatim>\<open>int\<close> (or \<open>x\<close> is a NaN or an infinity) the conversion still succeeds and
  its result depends on the implementation: it is \<open>conv x\<close>, for a \<open>conv\<close> that every
  function below takes as a parameter.
\<close>

definition trunc :: "rat \<Rightarrow> int" where
  "trunc q = (if q < 0 then - \<lfloor>- q\<rfloor> else \<lfloor>q\<rfloor>)"

definition f32_to_int :: "(float32 \<Rightarrow> int) \<Rightarrow> float32 \<Rightarrow> int" where
  "f32_to_int conv x =
     (case x of
        Fin q \<Rightarrow> if - (2 ^ 63) \<le> trunc q \<and> trunc q < 2 ^ 63 then trunc q else conv x
      | _ \<Rightarrow> conv x)"

text \<open>
  One implementation: on amd64 the conversion instruction yields the smallest \<^verbatim>\<open>int\<close> for
  every value it cannot represent.
\<close>

definition amd64_conv :: "float32 \<Rightarrow> int" where
  "amd64_conv x = - (2 ^ 63)"

section \<open>The request and the response\<close>

text \<open>
  The fields of \<^verbatim>\<open>adr.HandleRequest\<close>, \<^verbatim>\<open>adr.UplinkMetaData\<close> and \<^verbatim>\<open>adr.HandleResponse\<close> that
  the handler reads and writes. The response is declared first, so that \<open>DR\<close>,
  \<open>TxPowerIndex\<close> and \<open>NbTrans\<close> alone are the request's fields and the response's are
  written \<open>HandleResponse.DR\<close>, \<open>HandleResponse.TxPowerIndex\<close>, \<open>HandleResponse.NbTrans\<close>.
\<close>

record HandleResponse =
  DR :: int
  TxPowerIndex :: int
  NbTrans :: int

record UplinkMetaData =
  FCnt :: uint32
  MaxSNR :: float32
  TXPowerIndex :: int

record HandleRequest =
  ADR :: bool
  DR :: int
  TxPowerIndex :: int
  NbTrans :: int
  MaxTxPowerIndex :: int
  RequiredSNRForDR :: float32
  InstallationMargin :: float32
  MaxDR :: int
  UplinkHistory :: "UplinkMetaData list"

section \<open>The handler\<close>

definition pktLossRateTable :: "int list list" where
  "pktLossRateTable = [[1, 1, 2], [1, 2, 3], [2, 3, 3], [3, 3, 3]]"

definition requiredHistoryCount :: int where
  "requiredHistoryCount = 20"

text \<open>\<^verbatim>\<open>getMaxSNR\<close>: the loop over the history, with \<open>snrM\<close> as its state.\<close>

fun getMaxSNR_loop :: "float32 \<Rightarrow> UplinkMetaData list \<Rightarrow> float32" where
  "getMaxSNR_loop snrM [] = snrM"
| "getMaxSNR_loop snrM (m # ms) =
     getMaxSNR_loop (if f32_lt snrM (MaxSNR m) then MaxSNR m else snrM) ms"

definition getMaxSNR :: "HandleRequest \<Rightarrow> float32" where
  "getMaxSNR req = getMaxSNR_loop (Fin (- 999)) (UplinkHistory req)"

text \<open>\<^verbatim>\<open>getHistoryCount\<close>: the loop over the history, with \<open>count\<close> as its state.\<close>

fun getHistoryCount_loop :: "HandleRequest \<Rightarrow> int \<Rightarrow> UplinkMetaData list \<Rightarrow> int" where
  "getHistoryCount_loop req count [] = count"
| "getHistoryCount_loop req count (uh # uhs) =
     getHistoryCount_loop req
       (if HandleRequest.TxPowerIndex req = TXPowerIndex uh then count + 1 else count) uhs"

definition getHistoryCount :: "HandleRequest \<Rightarrow> int" where
  "getHistoryCount req = getHistoryCount_loop req 0 (UplinkHistory req)"

text \<open>
  The body of one call of \<^verbatim>\<open>getIdealTxPowerIndexAndDR\<close> with \<open>nStep \<noteq> 0\<close>: the
  assignments to \<open>nStep\<close>, \<open>txPowerIndex\<close> and \<open>dr\<close> before the recursive call.
\<close>

definition adjust :: "int \<Rightarrow> int \<Rightarrow> int \<Rightarrow> int \<Rightarrow> int \<Rightarrow> int \<times> int \<times> int" where
  "adjust nStep txPowerIndex dr maxTxPowerIndex maxDR =
     (if nStep > 0 then
        (if dr < maxDR then (nStep - 1, txPowerIndex, dr + 1)
         else if txPowerIndex < maxTxPowerIndex then (nStep - 1, txPowerIndex + 1, dr)
         else (nStep - 1, txPowerIndex, dr))
      else
        (if txPowerIndex > 0 then (nStep + 1, txPowerIndex - 1, dr)
         else if txPowerIndex = 0 then
           (if dr > 0 then (nStep + 1, txPowerIndex, dr - 1) else (nStep + 1, txPowerIndex, dr))
         else (nStep + 1, txPowerIndex, dr)))"

function getIdealTxPowerIndexAndDR :: "int \<Rightarrow> int \<Rightarrow> int \<Rightarrow> int \<Rightarrow> int \<Rightarrow> int \<times> int" where
  "getIdealTxPowerIndexAndDR nStep txPowerIndex dr maxTxPowerIndex maxDR =
     (if nStep = 0 then (txPowerIndex, dr)
      else
        (case adjust nStep txPowerIndex dr maxTxPowerIndex maxDR of
           (nStep', txPowerIndex', dr') \<Rightarrow>
             getIdealTxPowerIndexAndDR nStep' txPowerIndex' dr' maxTxPowerIndex maxDR))"
  by pat_completeness auto
termination
  by (relation "measure (\<lambda>(nStep, _). nat \<bar>nStep\<bar>)")
     (auto simp: adjust_def split: if_splits)

declare getIdealTxPowerIndexAndDR.simps [simp del]

text \<open>
  The function above recurses to any depth. The Go function does not: line 124 is an
  ordinary call (Go has no tail-call elimination), so a call with \<open>nStep \<noteq> 0\<close> needs one
  more stack frame, and the runtime aborts the program with \<^verbatim>\<open>fatal error: stack overflow\<close>
  when the stack is exhausted. \<open>frames\<close> is the number of frames of this function that
  the stack still holds.
\<close>

datatype fatal = StackOverflow

fun getIdealTxPowerIndexAndDR_frames ::
  "nat \<Rightarrow> int \<Rightarrow> int \<Rightarrow> int \<Rightarrow> int \<Rightarrow> int \<Rightarrow> fatal + int \<times> int" where
  "getIdealTxPowerIndexAndDR_frames 0 nStep txPowerIndex dr maxTxPowerIndex maxDR =
     Inl StackOverflow"
| "getIdealTxPowerIndexAndDR_frames (Suc frames) nStep txPowerIndex dr maxTxPowerIndex maxDR =
     (if nStep = 0 then Inr (txPowerIndex, dr)
      else
        (case adjust nStep txPowerIndex dr maxTxPowerIndex maxDR of
           (nStep', txPowerIndex', dr') \<Rightarrow>
             getIdealTxPowerIndexAndDR_frames frames nStep' txPowerIndex' dr'
               maxTxPowerIndex maxDR))"

text \<open>
  A bound on \<open>frames\<close> for any 64-bit Go program: the stack of a goroutine is at most
  1 000 000 000 bytes, and every frame holds at least its return address of 8 bytes.
\<close>

definition go_max_frames :: nat where
  "go_max_frames = 125000000"

text \<open>
  \<^verbatim>\<open>getNbTrans\<close>. The row is a constant and the column is \<open>currentNbTrans - 1\<close> after the
  clamp into 1..3, so both indices are in range.
\<close>

definition getNbTrans :: "int \<Rightarrow> float32 \<Rightarrow> int" where
  "getNbTrans currentNbTrans pktLossRate =
     (let currentNbTrans = (if currentNbTrans < 1 then 1 else currentNbTrans);
          currentNbTrans = (if currentNbTrans > 3 then 3 else currentNbTrans)
      in if f32_lt pktLossRate (Fin 5) then pktLossRateTable ! 0 ! nat (currentNbTrans - 1)
         else if f32_lt pktLossRate (Fin 10) then pktLossRateTable ! 1 ! nat (currentNbTrans - 1)
         else if f32_lt pktLossRate (Fin 30) then pktLossRateTable ! 2 ! nat (currentNbTrans - 1)
         else pktLossRateTable ! 3 ! nat (currentNbTrans - 1))"

text \<open>
  \<^verbatim>\<open>getPacketLossPercentage\<close>: the loop over the history with the index \<open>i\<close>, and
  \<open>lostPackets\<close> and \<open>previousFCnt\<close> as its state; it returns \<open>lostPackets\<close>.
\<close>

fun lostPackets_loop :: "nat \<Rightarrow> uint32 \<Rightarrow> uint32 \<Rightarrow> UplinkMetaData list \<Rightarrow> uint32" where
  "lostPackets_loop i lostPackets previousFCnt [] = lostPackets"
| "lostPackets_loop i lostPackets previousFCnt (m # ms) =
     (if i = 0 then lostPackets_loop (i + 1) lostPackets (FCnt m) ms
      else lostPackets_loop (i + 1) (lostPackets + (FCnt m - previousFCnt - 1)) (FCnt m) ms)"

definition getPacketLossPercentage :: "HandleRequest \<Rightarrow> float32" where
  "getPacketLossPercentage req =
     (if int (length (UplinkHistory req)) < requiredHistoryCount then Fin 0
      else
        f32_mul
          (f32_div (f32_of_uint32 (lostPackets_loop 0 0 0 (UplinkHistory req)))
                   (f32_of_int (int (length (UplinkHistory req)))))
          (Fin 100))"

text \<open>Lines 47 to 49 of \<^verbatim>\<open>Handle\<close>: the margin and the number of steps.\<close>

definition snrMargin :: "HandleRequest \<Rightarrow> float32" where
  "snrMargin req =
     f32_sub (f32_sub (getMaxSNR req) (RequiredSNRForDR req)) (InstallationMargin req)"

definition nStep :: "(float32 \<Rightarrow> int) \<Rightarrow> HandleRequest \<Rightarrow> int" where
  "nStep conv req = f32_to_int conv (f32_div (snrMargin req) (Fin 3))"

text \<open>\<^verbatim>\<open>Handle\<close>. Its second result is always \<^verbatim>\<open>nil\<close> and is left out.\<close>

definition Handle :: "(float32 \<Rightarrow> int) \<Rightarrow> HandleRequest \<Rightarrow> HandleResponse" where
  "Handle conv req =
     (let resp = \<lparr>HandleResponse.DR = HandleRequest.DR req,
                  HandleResponse.TxPowerIndex = HandleRequest.TxPowerIndex req,
                  HandleResponse.NbTrans = HandleRequest.NbTrans req\<rparr>
      in if \<not> ADR req then resp
         else
           let resp = (if HandleRequest.DR req > MaxDR req
                       then resp\<lparr>HandleResponse.DR := MaxDR req\<rparr> else resp);
               resp = resp\<lparr>HandleResponse.NbTrans :=
                        getNbTrans (HandleRequest.NbTrans req) (getPacketLossPercentage req)\<rparr>
           in if nStep conv req < 0 \<and> getHistoryCount req \<noteq> requiredHistoryCount then resp
              else
                (case getIdealTxPowerIndexAndDR (nStep conv req)
                        (HandleResponse.TxPowerIndex resp) (HandleResponse.DR resp)
                        (MaxTxPowerIndex req) (MaxDR req) of
                   (txPowerIndex, dr) \<Rightarrow>
                     resp\<lparr>HandleResponse.TxPowerIndex := txPowerIndex,
                          HandleResponse.DR := dr\<rparr>))"

section \<open>The words of the specification\<close>

text \<open>The current retransmission count clamped into 1..3.\<close>

definition clamp_1_3 :: "int \<Rightarrow> int" where
  "clamp_1_3 c = max 1 (min 3 c)"

text \<open>
  The lost frames of a sequence of frame counters: the sum, over the consecutive pairs,
  of the counter delta minus one, in unbounded integers.
\<close>

fun lost_frames :: "int list \<Rightarrow> int" where
  "lost_frames (a # b # cs) = (b - a - 1) + lost_frames (b # cs)"
| "lost_frames _ = 0"

text \<open>The frame counters of a request's history, as numbers.\<close>

definition frameCounters :: "HandleRequest \<Rightarrow> int list" where
  "frameCounters req = map (\<lambda>m. uint (FCnt m)) (UplinkHistory req)"

text \<open>The history entries that were sent at the request's current transmit power index.\<close>

definition samePowerEntries :: "HandleRequest \<Rightarrow> UplinkMetaData list" where
  "samePowerEntries req =
     filter (\<lambda>uh. TXPowerIndex uh = HandleRequest.TxPowerIndex req) (UplinkHistory req)"


section \<open>Example requests\<close>

text \<open>
  A region with data rates 0..5 and power indices 0..7. ADR is off and the device reports
  a configuration outside the region's limits.
\<close>

definition req_disabled :: HandleRequest where
  "req_disabled =
     \<lparr>ADR = False, DR = 6, TxPowerIndex = 9, NbTrans = 0, MaxTxPowerIndex = 7,
      RequiredSNRForDR = Fin (- 10), InstallationMargin = Fin 10, MaxDR = 5,
      UplinkHistory = []\<rparr>"

text \<open>ADR is on, the history is empty, the power index is above the region's limit.\<close>

definition req_power_above :: HandleRequest where
  "req_power_above =
     \<lparr>ADR = True, DR = 3, TxPowerIndex = 9, NbTrans = 1, MaxTxPowerIndex = 7,
      RequiredSNRForDR = Fin (- 10), InstallationMargin = Fin 10, MaxDR = 5,
      UplinkHistory = []\<rparr>"

text \<open>ADR is on, the history is empty, the data rate is above the limit, the count above 3.\<close>

definition req_enabled :: HandleRequest where
  "req_enabled =
     \<lparr>ADR = True, DR = 6, TxPowerIndex = 2, NbTrans = 5, MaxTxPowerIndex = 7,
      RequiredSNRForDR = Fin (- 10), InstallationMargin = Fin 10, MaxDR = 5,
      UplinkHistory = []\<rparr>"

text \<open>
  A history of \<open>n\<close> uplinks with the frame counters \<open>0, 1, \<dots>\<close>, all received with a
  best SNR of -12 dB and sent at power index 2.
\<close>

definition steady_history :: "nat \<Rightarrow> UplinkMetaData list" where
  "steady_history n =
     map (\<lambda>k. \<lparr>FCnt = of_nat k, MaxSNR = Fin (- 12), TXPowerIndex = 2\<rparr>) [0..<n]"

definition req_history_21 :: HandleRequest where
  "req_history_21 =
     \<lparr>ADR = True, DR = 3, TxPowerIndex = 2, NbTrans = 1, MaxTxPowerIndex = 7,
      RequiredSNRForDR = Fin (- 10), InstallationMargin = Fin 10, MaxDR = 5,
      UplinkHistory = steady_history 21\<rparr>"

text \<open>
  ADR is on, the history is empty, and the SNR the data rate requires is far below the
  -999 dB that stand for "no uplink".
\<close>

definition req_low_required :: HandleRequest where
  "req_low_required =
     \<lparr>ADR = True, DR = 0, TxPowerIndex = 0, NbTrans = 1, MaxTxPowerIndex = 7,
      RequiredSNRForDR = Fin (- 1015), InstallationMargin = Fin 10, MaxDR = 5,
      UplinkHistory = []\<rparr>"

text \<open>One uplink in the history, with a best SNR of -1000 dB.\<close>

definition req_below_floor :: HandleRequest where
  "req_below_floor =
     \<lparr>ADR = True, DR = 0, TxPowerIndex = 0, NbTrans = 1, MaxTxPowerIndex = 7,
      RequiredSNRForDR = Fin (- 10), InstallationMargin = Fin 10, MaxDR = 5,
      UplinkHistory = [\<lparr>FCnt = 0, MaxSNR = Fin (- 1000), TXPowerIndex = 0\<rparr>]\<rparr>"

text \<open>A history with the given frame counters, all at -12 dB and power index 2.\<close>

definition history_of :: "uint32 list \<Rightarrow> UplinkMetaData list" where
  "history_of cs = map (\<lambda>c. \<lparr>FCnt = c, MaxSNR = Fin (- 12), TXPowerIndex = 2\<rparr>) cs"

text \<open>
  Twenty uplinks with the frame counters 0, 0, 2, 3, \<dots>, 19: the second repeats the
  first, and one frame (counter 1) is missing after it.
\<close>

definition req_wrapped :: HandleRequest where
  "req_wrapped =
     \<lparr>ADR = True, DR = 3, TxPowerIndex = 2, NbTrans = 1, MaxTxPowerIndex = 7,
      RequiredSNRForDR = Fin (- 10), InstallationMargin = Fin 10, MaxDR = 5,
      UplinkHistory =
        history_of [0, 0, 2, 3, 4, 5, 6, 7, 8, 9, 10, 11, 12, 13, 14, 15, 16, 17, 18, 19]\<rparr>"

text \<open>Twenty uplinks that all carry the frame counter 7.\<close>

definition req_repeated :: HandleRequest where
  "req_repeated =
     \<lparr>ADR = True, DR = 3, TxPowerIndex = 2, NbTrans = 1, MaxTxPowerIndex = 7,
      RequiredSNRForDR = Fin (- 10), InstallationMargin = Fin 10, MaxDR = 5,
      UplinkHistory = history_of (replicate 20 7)\<rparr>"

text \<open>Twenty uplinks with the frame counters 0, 2, 3, \<dots>, 20: one frame is lost.\<close>

definition req_one_lost :: HandleRequest where
  "req_one_lost =
     \<lparr>ADR = True, DR = 3, TxPowerIndex = 2, NbTrans = 1, MaxTxPowerIndex = 7,
      RequiredSNRForDR = Fin (- 10), InstallationMargin = Fin 10, MaxDR = 5,
      UplinkHistory =
        history_of [0, 2, 3, 4, 5, 6, 7, 8, 9, 10, 11, 12, 13, 14, 15, 16, 17, 18, 19, 20]\<rparr>"

text \<open>
  Twenty uplinks at the current power index, and a NaN as the SNR the data rate requires.
\<close>

definition req_nan_required :: HandleRequest where
  "req_nan_required =
     \<lparr>ADR = True, DR = 3, TxPowerIndex = 2, NbTrans = 1, MaxTxPowerIndex = 7,
      RequiredSNRForDR = NaN, InstallationMargin = Fin 10, MaxDR = 5,
      UplinkHistory = steady_history 20\<rparr>"

text \<open>One uplink with a best SNR of 3 000 000 000 dB.\<close>

definition req_huge_snr :: HandleRequest where
  "req_huge_snr =
     \<lparr>ADR = True, DR = 0, TxPowerIndex = 0, NbTrans = 1, MaxTxPowerIndex = 7,
      RequiredSNRForDR = Fin (- 10), InstallationMargin = Fin 10, MaxDR = 5,
      UplinkHistory = [\<lparr>FCnt = 0, MaxSNR = Fin 3000000000, TXPowerIndex = 0\<rparr>]\<rparr>"

text \<open>
  Two uplinks, the first with a NaN as its best SNR, the second at -10 dB: the margin is
  -10 dB, which is not a multiple of 3.
\<close>

definition req_short_of_margin :: HandleRequest where
  "req_short_of_margin =
     \<lparr>ADR = True, DR = 3, TxPowerIndex = 2, NbTrans = 1, MaxTxPowerIndex = 7,
      RequiredSNRForDR = Fin (- 10), InstallationMargin = Fin 10, MaxDR = 5,
      UplinkHistory = [\<lparr>FCnt = 0, MaxSNR = NaN, TXPowerIndex = 2\<rparr>,
                       \<lparr>FCnt = 1, MaxSNR = Fin (- 10), TXPowerIndex = 2\<rparr>]\<rparr>"

text \<open>One uplink at 7 dB: the margin is 7 dB.\<close>

definition req_spare_margin :: HandleRequest where
  "req_spare_margin =
     \<lparr>ADR = True, DR = 3, TxPowerIndex = 2, NbTrans = 1, MaxTxPowerIndex = 7,
      RequiredSNRForDR = Fin (- 10), InstallationMargin = Fin 10, MaxDR = 5,
      UplinkHistory = [\<lparr>FCnt = 0, MaxSNR = Fin 7, TXPowerIndex = 2\<rparr>]\<rparr>"

section \<open>Lemmas\<close>

subsection \<open>Rounding\<close>

lemma round32_not_NaN: "round32 x \<noteq> NaN"
  by (simp add: round32_def Let_def)

lemma round_half_even_nonneg: "0 \<le> x \<Longrightarrow> 0 \<le> round_half_even x"
  by (simp add: round_half_even_def Let_def)

lemma round_half_even_pos: "1 \<le> x \<Longrightarrow> 1 \<le> round_half_even x"
  by (auto simp add: round_half_even_def Let_def)

lemma round_half_even_le: "rat_of_int (round_half_even x) \<le> x + 1"
  by (auto simp add: round_half_even_def Let_def) linarith+

lemma floor_log2_le:
  assumes "0 < x" shows "2 powi (floor_log2 x) \<le> x"
proof -
  obtain a b where q: "quotient_of x = (a, b)" by (cases "quotient_of x") auto
  then have b: "0 < b" and x: "x = of_int a / of_int b"
    using quotient_of_denom_pos quotient_of_div by auto
  with assms have a: "0 < a" by (simp add: zero_less_divide_iff)
  show ?thesis
  proof (cases "2 powi (bitlen a - bitlen b) \<le> x")
    case True
    then show ?thesis by (simp add: floor_log2_def q Let_def)
  next
    case False
    have 1: "2 ^ nat (bitlen a - 1) \<le> a" and 2: "b < 2 ^ nat (bitlen b)"
      using bitlen_bounds[OF a] bitlen_bounds[OF b] by auto
    have la: "0 < bitlen a" and lb: "0 < bitlen b" using a b by (simp_all add: bitlen_alt_def)
    have "(2::rat) powi (bitlen a - bitlen b - 1) = 2 powi (bitlen a - 1) / 2 powi (bitlen b)"
      by (simp add: power_int_diff)
    also have "\<dots> = 2 ^ nat (bitlen a - 1) / 2 ^ nat (bitlen b)"
      using la lb by (simp add: power_int_def)
    also have "\<dots> \<le> of_int a / of_int b"
    proof (rule frac_le)
      show "(2::rat) ^ nat (bitlen a - 1) \<le> of_int a"
        using 1 by (metis of_int_le_iff of_int_numeral of_int_power)
      show "rat_of_int b \<le> 2 ^ nat (bitlen b)"
        using 2 by (metis less_imp_le of_int_le_iff of_int_numeral of_int_power)
      show "0 < rat_of_int b" using b by simp
      show "0 \<le> rat_of_int a" using a by simp
    qed
    finally have "2 powi (bitlen a - bitlen b - 1) \<le> x" using x by simp
    moreover have "floor_log2 x = bitlen a - bitlen b - 1"
      using False by (simp add: floor_log2_def q Let_def)
    ultimately show ?thesis by simp
  qed
qed

text \<open>The unit in the last place of a number from 1 on is at most the number.\<close>

lemma ulp_le:
  assumes "1 \<le> x" shows "2 powi (max (floor_log2 x) (- 126) - 23) \<le> x"
proof (cases "floor_log2 x \<le> - 126")
  case True
  then have "(2::rat) powi (max (floor_log2 x) (- 126) - 23) = 2 powi (- 149)" by simp
  also have "\<dots> \<le> 1" by (simp add: power_int_def inverse_eq_divide power_le_one)
  finally show ?thesis using assms by simp
next
  case False
  then have "(2::rat) powi (max (floor_log2 x) (- 126) - 23) = 2 powi (floor_log2 x) / 2 powi 23"
    by (simp add: power_int_diff)
  also have "\<dots> \<le> 2 powi (floor_log2 x)" by (simp add: power_int_def divide_le_eq)
  also have "\<dots> \<le> x" using floor_log2_le[of x] assms by simp
  finally show ?thesis .
qed

lemma round32_pos_nonzero:
  assumes "1 \<le> x" shows "round32 x \<noteq> Fin 0"
proof -
  define ulp :: rat where "ulp = 2 powi (max (floor_log2 x) (- 126) - 23)"
  have ax: "\<bar>x\<bar> = x" "x \<noteq> 0" "\<not> x < 0" using assms by auto
  have "0 < ulp" by (simp add: ulp_def)
  have "ulp \<le> x" unfolding ulp_def using assms by (rule ulp_le)
  then have "1 \<le> x / ulp" using \<open>0 < ulp\<close> by (simp add: le_divide_eq)
  then have "1 \<le> round_half_even (x / ulp)" by (rule round_half_even_pos)
  then have "0 < rat_of_int (round_half_even (x / ulp)) * ulp"
    using \<open>0 < ulp\<close> by simp
  then show ?thesis
    using ax by (auto simp: round32_def Let_def ulp_def)
qed

text \<open>A number from 1 on and below \<open>2 ^ 127\<close> does not round to an infinity.\<close>

lemma round32_finite:
  assumes "1 \<le> x" "x < 2 ^ 127" shows "\<exists>r. round32 x = Fin r"
proof -
  define ulp :: rat where "ulp = 2 powi (max (floor_log2 x) (- 126) - 23)"
  have u0: "0 < ulp" by (simp add: ulp_def)
  have ux: "ulp \<le> x" unfolding ulp_def using assms(1) by (rule ulp_le)
  have "rat_of_int (round_half_even (x / ulp)) * ulp \<le> (x / ulp + 1) * ulp"
    using round_half_even_le[of "x / ulp"] u0 by (simp add: mult_le_cancel_right)
  also have "\<dots> = x + ulp" using u0 by (simp add: algebra_simps)
  also have "\<dots> \<le> 2 * x" using ux by simp
  also have "\<dots> < 2 * 2 ^ 127" using assms by simp
  also have "\<dots> = (2::rat) ^ 128" by simp
  finally show ?thesis
    using assms(1) by (auto simp: round32_def Let_def ulp_def)
qed

lemma round32_sign:
  assumes "x \<le> 0" "round32 x = Fin r" shows "r \<le> 0"
proof (cases "x = 0")
  case True
  with assms show ?thesis by (simp add: round32_def)
next
  case False
  define ulp :: rat where "ulp = 2 powi (max (floor_log2 \<bar>x\<bar>) (- 126) - 23)"
  have "0 < ulp" by (simp add: ulp_def)
  then have "0 \<le> \<bar>x\<bar> / ulp" by simp
  then have "0 \<le> round_half_even (\<bar>x\<bar> / ulp)" by (rule round_half_even_nonneg)
  then have "0 \<le> rat_of_int (round_half_even (\<bar>x\<bar> / ulp)) * ulp"
    using \<open>0 < ulp\<close> by simp
  with assms False show ?thesis
    by (auto simp: round32_def Let_def ulp_def split: if_splits)
qed

lemma ulp_le_1:
  assumes "0 < x" "x < 1" shows "2 powi (max (floor_log2 x) (- 126) - 23) \<le> (1::rat)"
proof -
  have "2 powi (floor_log2 x) \<le> x" using assms(1) by (rule floor_log2_le)
  with assms(2) have "(2::rat) powi (floor_log2 x) < 2 powi 0" by simp
  then have "floor_log2 x < 0" by (intro power_int_le_imp_less_exp[of "2::rat"]) simp_all
  then have "max (floor_log2 x) (- 126) - 23 \<le> 0" by simp
  then have "(2::rat) powi (max (floor_log2 x) (- 126) - 23) \<le> 2 powi 0"
    by (intro power_int_increasing) simp_all
  then show ?thesis by simp
qed

text \<open>The rounding of a number at most doubles its magnitude, or stays below 2.\<close>

lemma round32_neg_bound:
  assumes "0 \<le> a" "a \<le> 2 ^ 62"
  shows "\<exists>r. round32 (- a) = Fin (- r) \<and> 0 \<le> r \<and> r \<le> 2 ^ 63"
proof (cases "a = 0")
  case True
  then show ?thesis by (simp add: round32_def)
next
  case False
  with assms have pos: "0 < a" by simp
  define ulp :: rat where "ulp = 2 powi (max (floor_log2 a) (- 126) - 23)"
  define r where "r = rat_of_int (round_half_even (a / ulp)) * ulp"
  have u0: "0 < ulp" by (simp add: ulp_def)
  have r0: "0 \<le> r" unfolding r_def
    using round_half_even_nonneg[of "a / ulp"] pos u0 by simp
  have "r \<le> (a / ulp + 1) * ulp" unfolding r_def
    using round_half_even_le[of "a / ulp"] u0 by (simp add: mult_le_cancel_right)
  also have "\<dots> = a + ulp" using u0 by (simp add: algebra_simps)
  finally have ra: "r \<le> a + ulp" .
  have "a + ulp \<le> 2 ^ 63"
  proof (cases "a < 1")
    case True
    have "ulp \<le> 1" unfolding ulp_def using pos True by (rule ulp_le_1)
    with True have "a + ulp \<le> 2" by simp
    also have "\<dots> \<le> (2::rat) ^ 63" by simp
    finally show ?thesis .
  next
    case False
    then have "ulp \<le> a" unfolding ulp_def by (intro ulp_le) simp
    then have "a + ulp \<le> 2 * a" by simp
    also have "\<dots> \<le> 2 * 2 ^ 62" using assms(2) by simp
    also have "\<dots> = (2::rat) ^ 63" by simp
    finally show ?thesis .
  qed
  with ra have r63: "r \<le> 2 ^ 63" by simp
  also have "\<dots> < (2::rat) ^ 128" by simp
  finally have "\<not> 2 ^ 128 \<le> r" by simp
  then have "round32 (- a) = Fin (- r)"
    using pos by (simp add: round32_def Let_def r_def ulp_def)
  with r0 r63 show ?thesis by blast
qed

lemma round_half_even_of_int: "round_half_even (of_int z) = z"
  by (simp add: round_half_even_def Let_def)

lemma round32_int_exact:
  assumes "\<bar>n\<bar> < 2 ^ 24" shows "round32 (of_int n) = Fin (of_int n)"
proof (cases "n = 0")
  case True
  then show ?thesis by (simp add: round32_def)
next
  case False
  define a :: rat where "a = of_int \<bar>n\<bar>"
  define e where "e = max (floor_log2 a) (- 126)"
  define k where "k = nat (23 - e)"
  have "1 \<le> \<bar>n\<bar>" using False by simp
  then have a1: "1 \<le> a" unfolding a_def by (simp only: of_int_1_le_iff)
  have a24: "a < 2 ^ 24" unfolding a_def using assms
    by (simp only: of_int_less_numeral_power_cancel_iff)
  have "2 powi (floor_log2 a) \<le> a" using a1 by (intro floor_log2_le) simp
  with a24 have "(2::rat) powi (floor_log2 a) < 2 powi 24" by simp
  then have "floor_log2 a < 24" by (intro power_int_le_imp_less_exp[of "2::rat"]) simp_all
  then have e: "e \<le> 23" by (simp add: e_def)
  then have ek: "e - 23 = - int k" by (simp add: k_def)
  have ulp: "(2::rat) powi (e - 23) = inverse (2 ^ k)"
    unfolding ek by (simp only: power_int_minus power_int_of_nat)
  have q: "a / inverse (2 ^ k) = rat_of_int (\<bar>n\<bar> * 2 ^ k)"
    unfolding a_def by (simp only: divide_inverse inverse_inverse_eq of_int_mult of_int_power of_int_numeral)
  have "round_half_even (a / inverse (2 ^ k)) = \<bar>n\<bar> * 2 ^ k"
    unfolding q by (rule round_half_even_of_int)
  then have "rat_of_int (round_half_even (a / inverse (2 ^ k))) = a * 2 ^ k"
    unfolding a_def by (simp only: of_int_mult of_int_power of_int_numeral)
  then have r: "of_int (round_half_even (a / (2 powi (e - 23)))) * (2 powi (e - 23)) = a"
    unfolding ulp by simp
  have "a < 2 ^ 128" using a24 by (rule less_trans) simp
  then have big: "\<not> 2 ^ 128 \<le> a" by simp
  have abs: "\<bar>rat_of_int n\<bar> = a" by (simp add: a_def)
  have n0: "rat_of_int n \<noteq> 0" using False by simp
  have "round32 (of_int n) = Fin (if rat_of_int n < 0 then - a else a)"
    unfolding round32_def Let_def abs e_def[symmetric] r
    using n0 big by (simp only: if_False)
  also have "(if rat_of_int n < 0 then - a else a) = rat_of_int n"
    unfolding abs[symmetric] by (simp add: abs_if)
  finally show ?thesis .
qed

lemma f32_of_uint32_finite: "\<exists>r. f32_of_uint32 w = Fin r"
proof (cases "uint w = 0")
  case True
  then show ?thesis by (simp add: f32_of_uint32_def round32_def)
next
  case False
  have "0 \<le> uint w" by simp
  with False have 1: "1 \<le> rat_of_int (uint w)" by linarith
  have "uint w < 2 ^ 32" using uint_lt2p[of w] by simp
  then have "rat_of_int (uint w) < 2 ^ 32"
    by (simp only: of_int_less_numeral_power_cancel_iff)
  also have "\<dots> < (2::rat) ^ 127" by simp
  finally show ?thesis unfolding f32_of_uint32_def using 1 by (intro round32_finite)
qed

lemma f32_div_not_NaN:
  assumes "b \<noteq> NaN" "b \<noteq> Fin 0" shows "f32_div (Fin a) b \<noteq> NaN"
  using assms by (cases b) (simp_all add: round32_not_NaN)

lemma f32_mul_100_not_NaN: "d \<noteq> NaN \<Longrightarrow> f32_mul d (Fin 100) \<noteq> NaN"
  by (cases d) (simp_all add: round32_not_NaN)

lemma getPacketLossPercentage_not_NaN: "getPacketLossPercentage req \<noteq> NaN"
proof (cases "int (length (UplinkHistory req)) < requiredHistoryCount")
  case True
  then show ?thesis by (simp add: getPacketLossPercentage_def)
next
  case False
  let ?n = "int (length (UplinkHistory req))"
  obtain a where a: "f32_of_uint32 (lostPackets_loop 0 0 0 (UplinkHistory req)) = Fin a"
    using f32_of_uint32_finite by blast
  have "1 \<le> rat_of_int ?n" using False by (simp add: requiredHistoryCount_def)
  then have b: "f32_of_int ?n \<noteq> Fin 0" "f32_of_int ?n \<noteq> NaN"
    unfolding f32_of_int_def by (simp_all only: round32_pos_nonzero round32_not_NaN not_False_eq_True)
  show ?thesis
    using False f32_mul_100_not_NaN[OF f32_div_not_NaN[OF b(2) b(1), of a]]
    by (simp add: getPacketLossPercentage_def a)
qed

subsection \<open>Comparisons and the maximum\<close>

lemma f32_not_lt_le: "x \<noteq> NaN \<Longrightarrow> \<not> f32_lt x (Fin c) \<Longrightarrow> f32_le (Fin c) x"
  by (cases x) auto

lemma f32_lt_trans_neg:
  "a \<noteq> NaN \<Longrightarrow> b \<noteq> NaN \<Longrightarrow> \<not> f32_lt b a \<Longrightarrow> \<not> f32_lt c b \<Longrightarrow> \<not> f32_lt c a"
  by (cases a; cases b; cases c) auto

lemma getMaxSNR_loop_props:
  "s \<noteq> NaN \<Longrightarrow>
     getMaxSNR_loop s ms \<noteq> NaN \<and> \<not> f32_lt (getMaxSNR_loop s ms) s \<and>
     (\<forall>m \<in> set ms. \<not> f32_lt (getMaxSNR_loop s ms) (MaxSNR m)) \<and>
     (getMaxSNR_loop s ms = s \<or> getMaxSNR_loop s ms \<in> MaxSNR ` set ms)"
proof (induction ms arbitrary: s)
  case Nil
  then show ?case by (cases s) auto
next
  case (Cons m ms)
  let ?s' = "if f32_lt s (MaxSNR m) then MaxSNR m else s"
  have s': "?s' \<noteq> NaN" using Cons.prems by (cases s; cases "MaxSNR m") auto
  have nm: "f32_lt s (MaxSNR m) \<Longrightarrow> MaxSNR m \<noteq> NaN" by (cases s; cases "MaxSNR m") auto
  note IH = Cons.IH[OF s']
  have 1: "\<not> f32_lt ?s' s" using Cons.prems by (cases s; cases "MaxSNR m") auto
  have 2: "\<not> f32_lt ?s' (MaxSNR m)" using Cons.prems by (cases s; cases "MaxSNR m") auto
  have a: "\<not> f32_lt (getMaxSNR_loop ?s' ms) s"
    using f32_lt_trans_neg[OF Cons.prems s' 1] IH by blast
  have b: "\<not> f32_lt (getMaxSNR_loop ?s' ms) (MaxSNR m)"
  proof (cases "MaxSNR m = NaN")
    case True then show ?thesis by (cases "getMaxSNR_loop ?s' ms") auto
  next
    case False
    from f32_lt_trans_neg[OF False s' 2] IH show ?thesis by blast
  qed
  from IH a b show ?case by auto
qed

subsection \<open>The lost frames\<close>

lemma lostPackets_loop_pos:
  "0 < i \<Longrightarrow> lostPackets_loop i lost prev ms =
     lost + word_of_int (lost_frames (uint prev # map (\<lambda>m. uint (FCnt m)) ms))"
proof (induction ms arbitrary: i lost prev)
  case Nil
  then show ?case by simp
next
  case (Cons m ms)
  have "lostPackets_loop i lost prev (m # ms) =
          lostPackets_loop (i + 1) (lost + (FCnt m - prev - 1)) (FCnt m) ms"
    using Cons.prems by simp
  also have "\<dots> = lost + (FCnt m - prev - 1) +
          word_of_int (lost_frames (uint (FCnt m) # map (\<lambda>m. uint (FCnt m)) ms))"
    by (rule Cons.IH) simp
  finally show ?case by (simp add: algebra_simps)
qed

lemma lostPackets_loop_total:
  "lostPackets_loop 0 0 0 h = word_of_int (lost_frames (map (\<lambda>m. uint (FCnt m)) h))"
  by (cases h) (simp_all add: lostPackets_loop_pos)

lemma lost_frames_telescope:
  "xs \<noteq> [] \<Longrightarrow> lost_frames xs = last xs - hd xs - (int (length xs) - 1)"
  by (induction xs rule: lost_frames.induct) auto

lemma lost_frames_nonneg:
  "successively (<) xs \<Longrightarrow> 0 \<le> lost_frames xs"
  by (induction xs rule: lost_frames.induct) auto

lemma lost_frames_uint_bound:
  assumes "successively (<) (map uint (ws :: uint32 list))"
  shows "0 \<le> lost_frames (map uint ws) \<and> lost_frames (map uint ws) < 2 ^ 32"
proof (cases ws)
  case Nil
  then show ?thesis by simp
next
  case (Cons w ws')
  then have ne: "map uint ws \<noteq> []" by simp
  have "last (map uint ws) = uint (last ws)" using Cons by (simp add: last_map)
  then have l: "last (map uint ws) < 2 ^ 32"
    using uint_lt2p[of "last ws"] by simp
  have h: "0 \<le> hd (map uint ws)" using Cons by simp
  have "lost_frames (map uint ws) \<le> last (map uint ws) - hd (map uint ws)"
    using lost_frames_telescope[OF ne] Cons by simp
  with l h lost_frames_nonneg[OF assms] show ?thesis by linarith
qed

lemma uint_contribution:
  "uint (b - a - 1 :: uint32) = (uint b - uint a - 1) mod 2 ^ 32"
  by (simp add: uint_word_arith_bintrs take_bit_eq_mod mod_simps)

lemma uint_repeated: "uint (a - a - 1 :: uint32) = 2 ^ 32 - 1"
  using uint_contribution[of a a] by simp

subsection \<open>The step loop\<close>

lemma adjust_bounds:
  assumes "adjust n tx dr mtx mdr = (n', tx', dr')"
  shows "(dr \<le> mdr \<longrightarrow> dr' \<le> mdr) \<and> (tx \<le> mtx \<longrightarrow> tx' \<le> mtx) \<and> (0 \<le> tx \<longrightarrow> 0 \<le> tx')"
  using assms by (auto simp: adjust_def split: if_splits)

lemma getIdeal_unfold:
  assumes "n \<noteq> 0" "adjust n tx dr mtx mdr = (n', tx', dr')"
  shows "getIdealTxPowerIndexAndDR n tx dr mtx mdr = getIdealTxPowerIndexAndDR n' tx' dr' mtx mdr"
  using assms by (simp add: getIdealTxPowerIndexAndDR.simps[of n])

text \<open>The loop keeps each of the three bounds that holds when it starts.\<close>

lemma getIdeal_bounds:
  "(dr \<le> mdr \<longrightarrow> snd (getIdealTxPowerIndexAndDR n tx dr mtx mdr) \<le> mdr) \<and>
   (tx \<le> mtx \<longrightarrow> fst (getIdealTxPowerIndexAndDR n tx dr mtx mdr) \<le> mtx) \<and>
   (0 \<le> tx \<longrightarrow> 0 \<le> fst (getIdealTxPowerIndexAndDR n tx dr mtx mdr))"
proof (induction n tx dr mtx mdr rule: getIdealTxPowerIndexAndDR.induct)
  case (1 n tx dr mtx mdr)
  show ?case
  proof (cases "n = 0")
    case True
    then show ?thesis by (simp add: getIdealTxPowerIndexAndDR.simps)
  next
    case False
    obtain n' tx' dr' where a: "adjust n tx dr mtx mdr = (n', tx', dr')"
      by (cases "adjust n tx dr mtx mdr") auto
    from "1.IH"[OF False a[symmetric] refl] adjust_bounds[OF a] show ?thesis
      by (simp add: getIdeal_unfold[OF False a])
  qed
qed

lemma getIdeal_zero: "getIdealTxPowerIndexAndDR 0 tx dr mtx mdr = (tx, dr)"
  by (simp add: getIdealTxPowerIndexAndDR.simps)

lemma adjust_abs:
  "n \<noteq> 0 \<Longrightarrow> adjust n tx dr mtx mdr = (n', tx', dr') \<Longrightarrow> \<bar>n'\<bar> = \<bar>n\<bar> - 1"
  by (auto simp: adjust_def split: if_splits)

lemma frames_enough:
  "nat \<bar>n\<bar> < frames \<Longrightarrow>
     getIdealTxPowerIndexAndDR_frames frames n tx dr mtx mdr =
       Inr (getIdealTxPowerIndexAndDR n tx dr mtx mdr)"
proof (induction frames arbitrary: n tx dr)
  case 0
  then show ?case by simp
next
  case (Suc frames)
  show ?case
  proof (cases "n = 0")
    case True
    then show ?thesis by (simp add: getIdeal_zero)
  next
    case False
    obtain n' tx' dr' where a: "adjust n tx dr mtx mdr = (n', tx', dr')"
      by (cases "adjust n tx dr mtx mdr") auto
    have "nat \<bar>n'\<bar> < frames" using adjust_abs[OF False a] Suc.prems False by simp
    then show ?thesis
      using Suc.IH[of n' tx' dr'] False a by (simp add: getIdeal_unfold[OF False a])
  qed
qed

lemma frames_short:
  "frames \<le> nat \<bar>n\<bar> \<Longrightarrow>
     getIdealTxPowerIndexAndDR_frames frames n tx dr mtx mdr = Inl StackOverflow"
proof (induction frames arbitrary: n tx dr)
  case 0
  then show ?case by simp
next
  case (Suc frames)
  then have False: "n \<noteq> 0" by auto
  obtain n' tx' dr' where a: "adjust n tx dr mtx mdr = (n', tx', dr')"
    by (cases "adjust n tx dr mtx mdr") auto
  have "frames \<le> nat \<bar>n'\<bar>" using adjust_abs[OF False a] Suc.prems by simp
  then show ?case using Suc.IH[of n' tx' dr'] False a by simp
qed

lemma getIdeal_funpow:
  "((\<lambda>(k, t, d). adjust k t d mtx mdr) ^^ nat \<bar>n\<bar>) (n, tx, dr) =
     (0, getIdealTxPowerIndexAndDR n tx dr mtx mdr)"
proof (induction n tx dr mtx mdr rule: getIdealTxPowerIndexAndDR.induct)
  case (1 n tx dr mtx mdr)
  show ?case
  proof (cases "n = 0")
    case True
    then show ?thesis by (simp add: getIdeal_zero)
  next
    case False
    obtain n' tx' dr' where a: "adjust n tx dr mtx mdr = (n', tx', dr')"
      by (cases "adjust n tx dr mtx mdr") auto
    have "nat \<bar>n\<bar> = Suc (nat \<bar>n'\<bar>)" using adjust_abs[OF False a] False by simp
    then show ?thesis
      using "1.IH"[OF False a[symmetric] refl]
      by (simp add: funpow_swap1 a getIdeal_unfold[OF False a])
  qed
qed

subsection \<open>The history loops\<close>

lemma getHistoryCount_loop_filter:
  "getHistoryCount_loop req count uhs =
     count + int (length (filter (\<lambda>uh. TXPowerIndex uh = HandleRequest.TxPowerIndex req) uhs))"
  by (induction uhs arbitrary: count) auto

lemma getHistoryCount_samePowerEntries:
  "getHistoryCount req = int (length (samePowerEntries req))"
  by (simp add: getHistoryCount_def samePowerEntries_def getHistoryCount_loop_filter)

lemma getNbTrans_range: "getNbTrans c p \<in> {1, 2, 3}"
  by (simp add: getNbTrans_def pktLossRateTable_def Let_def nth_Cons')

lemma trunc_nonpos: "q \<le> 0 \<Longrightarrow> trunc q \<le> 0"
  by (auto simp: trunc_def)

lemma trunc_floor_ceiling: "trunc q = (if 0 \<le> q then \<lfloor>q\<rfloor> else \<lceil>q\<rceil>)"
  by (simp add: trunc_def ceiling_def)

lemma getHistoryCount_empty: "UplinkHistory req = [] \<Longrightarrow> getHistoryCount req = 0"
  by (simp add: getHistoryCount_def)

section \<open>The claims\<close>

text \<open>
  C2. A request with ADR disabled gets its own configuration back: the data rate, the power
  index and the retransmission count of the response are those of the request, whatever
  the limits, the margins and the history are.
\<close>

theorem Handle_ADR_disabled:
  "\<not> ADR req \<Longrightarrow>
     Handle conv req =
       \<lparr>HandleResponse.DR = HandleRequest.DR req,
        HandleResponse.TxPowerIndex = HandleRequest.TxPowerIndex req,
        HandleResponse.NbTrans = HandleRequest.NbTrans req\<rparr>"
  by (simp add: Handle_def)

theorem Handle_ADR_disabled_witness:
  "\<not> ADR req_disabled \<and>
   Handle amd64_conv req_disabled =
     \<lparr>HandleResponse.DR = 6, HandleResponse.TxPowerIndex = 9, HandleResponse.NbTrans = 0\<rparr>"
proof -
  have h: "\<not> ADR req_disabled" by (simp add: req_disabled_def)
  show ?thesis using h Handle_ADR_disabled [OF h, of amd64_conv]
    by (simp add: req_disabled_def)
qed

text \<open>
  C6. One iteration of the step loop. With \<open>nStep > 0\<close> it raises the data rate when it
  is below the maximum, else raises the power index when that is below its maximum, else
  changes nothing. With \<open>nStep < 0\<close> it lowers the power index when it is above 0, else
  lowers the data rate when the power index is 0 and the data rate is above 0, else
  changes nothing. Either way it goes on with one step less. Two steps from data rate 3
  (maximum 5) and power index 1 (maximum 3) end at data rate 5 and power index 1; one
  negative step from power index 2 ends at power index 1 with the data rate unchanged.
\<close>

theorem getIdealTxPowerIndexAndDR_iteration:
  "(0 < n \<and> dr < mdr \<longrightarrow>
      getIdealTxPowerIndexAndDR n tx dr mtx mdr =
      getIdealTxPowerIndexAndDR (n - 1) tx (dr + 1) mtx mdr) \<and>
   (0 < n \<and> \<not> dr < mdr \<and> tx < mtx \<longrightarrow>
      getIdealTxPowerIndexAndDR n tx dr mtx mdr =
      getIdealTxPowerIndexAndDR (n - 1) (tx + 1) dr mtx mdr) \<and>
   (0 < n \<and> \<not> dr < mdr \<and> \<not> tx < mtx \<longrightarrow>
      getIdealTxPowerIndexAndDR n tx dr mtx mdr =
      getIdealTxPowerIndexAndDR (n - 1) tx dr mtx mdr) \<and>
   (n < 0 \<and> 0 < tx \<longrightarrow>
      getIdealTxPowerIndexAndDR n tx dr mtx mdr =
      getIdealTxPowerIndexAndDR (n + 1) (tx - 1) dr mtx mdr) \<and>
   (n < 0 \<and> tx = 0 \<and> 0 < dr \<longrightarrow>
      getIdealTxPowerIndexAndDR n tx dr mtx mdr =
      getIdealTxPowerIndexAndDR (n + 1) tx (dr - 1) mtx mdr) \<and>
   (n < 0 \<and> \<not> 0 < tx \<and> \<not> (tx = 0 \<and> 0 < dr) \<longrightarrow>
      getIdealTxPowerIndexAndDR n tx dr mtx mdr =
      getIdealTxPowerIndexAndDR (n + 1) tx dr mtx mdr) \<and>
   getIdealTxPowerIndexAndDR 2 1 3 3 5 = (1, 5) \<and>
   getIdealTxPowerIndexAndDR (- 1) 2 dr mtx mdr = (1, dr)"
proof -
  have ex1: "getIdealTxPowerIndexAndDR 2 1 3 3 5 = (1, 5)"
    by (simp add: getIdealTxPowerIndexAndDR.simps adjust_def)
  have ex2: "getIdealTxPowerIndexAndDR (- 1) 2 dr mtx mdr = (1, dr)"
    by (simp add: getIdealTxPowerIndexAndDR.simps adjust_def)
  show ?thesis
    unfolding ex1 ex2
    by (simp add: getIdealTxPowerIndexAndDR.simps[of n] adjust_def)
qed

theorem getIdealTxPowerIndexAndDR_iteration_witness:
  "getIdealTxPowerIndexAndDR 2 1 3 3 5 = getIdealTxPowerIndexAndDR 1 1 4 3 5 \<and>
   getIdealTxPowerIndexAndDR 2 1 5 3 5 = getIdealTxPowerIndexAndDR 1 2 5 3 5 \<and>
   getIdealTxPowerIndexAndDR 2 3 5 3 5 = getIdealTxPowerIndexAndDR 1 3 5 3 5 \<and>
   getIdealTxPowerIndexAndDR (- 2) 2 4 3 5 = getIdealTxPowerIndexAndDR (- 1) 1 4 3 5 \<and>
   getIdealTxPowerIndexAndDR (- 2) 0 4 3 5 = getIdealTxPowerIndexAndDR (- 1) 0 3 3 5 \<and>
   getIdealTxPowerIndexAndDR (- 2) 0 0 3 5 = getIdealTxPowerIndexAndDR (- 1) 0 0 3 5 \<and>
   getIdealTxPowerIndexAndDR (- 2) (- 4) 4 3 5 = getIdealTxPowerIndexAndDR (- 1) (- 4) 4 3 5"
  using getIdealTxPowerIndexAndDR_iteration [of 2 3 5 1 3]
    getIdealTxPowerIndexAndDR_iteration [of 2 5 5 1 3]
    getIdealTxPowerIndexAndDR_iteration [of 2 5 5 3 3]
    getIdealTxPowerIndexAndDR_iteration [of "- 2" 4 5 2 3]
    getIdealTxPowerIndexAndDR_iteration [of "- 2" 4 5 0 3]
    getIdealTxPowerIndexAndDR_iteration [of "- 2" 0 5 0 3]
    getIdealTxPowerIndexAndDR_iteration [of "- 2" 4 5 "- 4" 3]
  by simp

text \<open>
  C9, as amended. The step loop returns for every \<open>nStep\<close> whose magnitude is below the
  number of frames the stack holds, with the result of the function; its body has then run
  exactly \<open>\<bar>nStep\<bar>\<close> times and has brought \<open>nStep\<close> to 0, and every run of the body
  brings \<open>\<bar>nStep\<bar>\<close> down by one, whether or not it changes the power index or the data
  rate. For any other \<open>nStep\<close> the recursion exhausts the stack and the program aborts.
\<close>

theorem getIdealTxPowerIndexAndDR_depth:
  "(nat \<bar>n\<bar> < frames \<longrightarrow>
      getIdealTxPowerIndexAndDR_frames frames n tx dr mtx mdr =
        Inr (getIdealTxPowerIndexAndDR n tx dr mtx mdr)) \<and>
   (frames \<le> nat \<bar>n\<bar> \<longrightarrow>
      getIdealTxPowerIndexAndDR_frames frames n tx dr mtx mdr = Inl StackOverflow) \<and>
   ((\<lambda>(k, t, d). adjust k t d mtx mdr) ^^ nat \<bar>n\<bar>) (n, tx, dr) =
      (0, getIdealTxPowerIndexAndDR n tx dr mtx mdr) \<and>
   (n \<noteq> 0 \<longrightarrow> \<bar>fst (adjust n tx dr mtx mdr)\<bar> = \<bar>n\<bar> - 1)"
  using frames_enough[of n frames tx dr mtx mdr] frames_short[of frames n tx dr mtx mdr]
    getIdeal_funpow[where n = n and tx = tx and dr = dr and mtx = mtx and mdr = mdr]
    adjust_abs[of n tx dr mtx mdr]
  by (cases "adjust n tx dr mtx mdr") auto

theorem getIdealTxPowerIndexAndDR_depth_witness:
  "nat \<bar>- 3 :: int\<bar> < 4 \<and>
   getIdealTxPowerIndexAndDR_frames 4 (- 3) 1 1 7 5 = Inr (0, 0) \<and>
   getIdealTxPowerIndexAndDR (- 3) 1 1 7 5 = (0, 0) \<and>
   (3 :: nat) \<le> nat \<bar>- 3 :: int\<bar> \<and>
   getIdealTxPowerIndexAndDR_frames 3 (- 3) 1 1 7 5 = Inl StackOverflow \<and>
   (- 3 :: int) \<noteq> 0 \<and> adjust (- 3) 0 0 7 5 = (- 2, 0, 0) \<and>
   \<bar>fst (adjust (- 3) 0 0 7 5)\<bar> = (2 :: int)"
proof -
  have g: "getIdealTxPowerIndexAndDR (- 3) 1 1 7 5 = (0, 0)"
    by (simp add: getIdealTxPowerIndexAndDR.simps adjust_def)
  have a: "adjust (- 3) 0 0 7 5 = (- 2, 0, 0)" by (simp add: adjust_def)
  show ?thesis
    using getIdealTxPowerIndexAndDR_depth [of "- 3" 4 1 1 7 5]
      getIdealTxPowerIndexAndDR_depth [of "- 3" 3 1 1 7 5]
      getIdealTxPowerIndexAndDR_depth [of "- 3" 0 0 0 7 5]
    by (simp add: g a)
qed

text \<open>
  C9, as stated, fails: the loop does not end for every \<open>nStep\<close>. With a NaN as the
  required SNR and twenty uplinks at the current power index, \<^verbatim>\<open>Handle\<close> on amd64 passes
  \<open>- (2 ^ 63)\<close> steps to the loop; with a best SNR of 3 000 000 000 dB it passes
  1 000 000 000 steps on every implementation. Both need more frames than the largest
  stack holds, and the program aborts.
\<close>

theorem getIdealTxPowerIndexAndDR_depth_counterexample:
  "ADR req_nan_required \<and> nStep amd64_conv req_nan_required = - (2 ^ 63) \<and>
   getHistoryCount req_nan_required = requiredHistoryCount \<and>
   getIdealTxPowerIndexAndDR_frames go_max_frames (- (2 ^ 63)) 2 3 7 5 = Inl StackOverflow \<and>
   ADR req_huge_snr \<and> is_float32 (Fin 3000000000) \<and>
   nStep amd64_conv req_huge_snr = 1000000000 \<and>
   getIdealTxPowerIndexAndDR_frames go_max_frames 1000000000 0 0 7 5 = Inl StackOverflow"
proof -
  have n1: "nStep amd64_conv req_nan_required = - (2 ^ 63)"
    unfolding nStep_def snrMargin_def getMaxSNR_def req_nan_required_def steady_history_def
    by code_simp
  have c1: "getHistoryCount req_nan_required = requiredHistoryCount"
    unfolding getHistoryCount_def req_nan_required_def steady_history_def requiredHistoryCount_def
    by code_simp
  have o1: "getIdealTxPowerIndexAndDR_frames go_max_frames (- (2 ^ 63)) 2 3 7 5 = Inl StackOverflow"
    by (rule frames_short) (simp add: go_max_frames_def)
  have f: "is_float32 (Fin 3000000000)" by code_simp
  have n2: "nStep amd64_conv req_huge_snr = 1000000000"
    unfolding nStep_def snrMargin_def getMaxSNR_def req_huge_snr_def
    by code_simp
  have o2: "getIdealTxPowerIndexAndDR_frames go_max_frames 1000000000 0 0 7 5 = Inl StackOverflow"
    by (rule frames_short) (simp add: go_max_frames_def)
  show ?thesis using n1 c1 o1 f n2 o2 by (simp add: req_nan_required_def req_huge_snr_def)
qed

text \<open>
  C1, as amended. ADR disabled returns the request's configuration as it is, limits or no
  limits, so the bounds hold on these conditions: the data rate of the response is at most
  \<open>MaxDR\<close> when ADR is enabled or the request's data rate already is; the power index of
  the response is at most \<open>MaxTxPowerIndex\<close> when the request's is, and at least 0 when
  the request's is.
\<close>

theorem Handle_bounds:
  "(ADR req \<or> HandleRequest.DR req \<le> MaxDR req \<longrightarrow>
      HandleResponse.DR (Handle conv req) \<le> MaxDR req) \<and>
   (HandleRequest.TxPowerIndex req \<le> MaxTxPowerIndex req \<longrightarrow>
      HandleResponse.TxPowerIndex (Handle conv req) \<le> MaxTxPowerIndex req) \<and>
   (0 \<le> HandleRequest.TxPowerIndex req \<longrightarrow>
      0 \<le> HandleResponse.TxPowerIndex (Handle conv req))"
proof -
  let ?dr = "if HandleRequest.DR req > MaxDR req then MaxDR req else HandleRequest.DR req"
  let ?g = "getIdealTxPowerIndexAndDR (nStep conv req) (HandleRequest.TxPowerIndex req) ?dr
              (MaxTxPowerIndex req) (MaxDR req)"
  note b = getIdeal_bounds[of ?dr "MaxDR req" "nStep conv req" "HandleRequest.TxPowerIndex req"
             "MaxTxPowerIndex req"]
  have dr: "snd ?g \<le> MaxDR req" using b by simp
  have tx1: "HandleRequest.TxPowerIndex req \<le> MaxTxPowerIndex req \<Longrightarrow> fst ?g \<le> MaxTxPowerIndex req"
    using b by simp
  have tx2: "0 \<le> HandleRequest.TxPowerIndex req \<Longrightarrow> 0 \<le> fst ?g"
    using b by simp
  show ?thesis
    using dr tx1 tx2 by (auto simp: Handle_def Let_def split: prod.splits if_splits)
qed

theorem Handle_bounds_witness:
  "ADR req_enabled \<and>
   HandleRequest.TxPowerIndex req_enabled \<le> MaxTxPowerIndex req_enabled \<and>
   0 \<le> HandleRequest.TxPowerIndex req_enabled \<and>
   HandleRequest.DR req_enabled = 6 \<and> MaxDR req_enabled = 5 \<and>
   HandleResponse.DR (Handle amd64_conv req_enabled) \<le> 5 \<and>
   HandleResponse.TxPowerIndex (Handle amd64_conv req_enabled) \<le> 7 \<and>
   0 \<le> HandleResponse.TxPowerIndex (Handle amd64_conv req_enabled)"
  using Handle_bounds [of req_enabled amd64_conv]
  by (simp add: req_enabled_def)

text \<open>
  C1, as stated, fails: with ADR disabled the response repeats a data rate and a power
  index above the limits, and with ADR enabled a power index above the limit stays there
  when the guard returns early.
\<close>

theorem Handle_bounds_counterexample:
  "\<not> HandleResponse.DR (Handle amd64_conv req_disabled) \<le> MaxDR req_disabled \<and>
   \<not> HandleResponse.TxPowerIndex (Handle amd64_conv req_disabled)
        \<le> MaxTxPowerIndex req_disabled \<and>
   \<not> HandleResponse.TxPowerIndex (Handle amd64_conv req_power_above)
        \<le> MaxTxPowerIndex req_power_above"
proof -
  have n: "nStep amd64_conv req_power_above = - 333"
    unfolding nStep_def snrMargin_def getMaxSNR_def req_power_above_def by code_simp
  have c: "getHistoryCount req_power_above = 0"
    by (simp add: getHistoryCount_def req_power_above_def)
  have "HandleResponse.TxPowerIndex (Handle amd64_conv req_power_above) = 9"
    using n c by (simp add: Handle_def Let_def requiredHistoryCount_def)
       (simp add: req_power_above_def)
  then show ?thesis
    by (simp add: Handle_def) (simp add: req_disabled_def req_power_above_def)
qed

text \<open>
  C8, as amended. The retransmission count of the response is 1, 2 or 3 when ADR is
  enabled, whatever the request's count is, or when the request's count already is; with
  ADR disabled the response repeats the request's count.
\<close>

theorem Handle_NbTrans_range:
  "(ADR req \<or> HandleRequest.NbTrans req \<in> {1, 2, 3} \<longrightarrow>
      HandleResponse.NbTrans (Handle conv req) \<in> {1, 2, 3}) \<and>
   (\<not> ADR req \<longrightarrow> HandleResponse.NbTrans (Handle conv req) = HandleRequest.NbTrans req)"
  using getNbTrans_range[of "HandleRequest.NbTrans req" "getPacketLossPercentage req"]
  by (auto simp: Handle_def Let_def split: prod.splits)

theorem Handle_NbTrans_range_witness:
  "ADR req_enabled \<and> HandleRequest.NbTrans req_enabled = 5 \<and>
   HandleResponse.NbTrans (Handle amd64_conv req_enabled) \<in> {1, 2, 3} \<and>
   \<not> ADR req_disabled \<and>
   HandleResponse.NbTrans (Handle amd64_conv req_disabled) = HandleRequest.NbTrans req_disabled"
  using Handle_NbTrans_range [of req_enabled amd64_conv]
    Handle_NbTrans_range [of req_disabled amd64_conv]
  by (simp add: req_enabled_def req_disabled_def)

text \<open>C8, as stated, fails: with ADR disabled a request's count of 0 comes back as 0.\<close>

theorem Handle_NbTrans_range_counterexample:
  "HandleResponse.NbTrans (Handle amd64_conv req_disabled) = 0 \<and>
   HandleResponse.NbTrans (Handle amd64_conv req_disabled) \<notin> {1, 2, 3}"
  by (simp add: Handle_def) (simp add: req_disabled_def)

text \<open>
  C5. With ADR enabled, a negative number of steps, and a number of history entries at
  the request's current power index other than 20 (more than 20 too), the response is the
  one built before the steps: the request's data rate lowered to \<open>MaxDR\<close> when above it,
  the retransmission count of the loss table, and the request's power index.
\<close>

theorem Handle_guard:
  assumes "ADR req" "nStep conv req < 0" "length (samePowerEntries req) \<noteq> 20"
  shows "Handle conv req =
           \<lparr>HandleResponse.DR = min (HandleRequest.DR req) (MaxDR req),
            HandleResponse.TxPowerIndex = HandleRequest.TxPowerIndex req,
            HandleResponse.NbTrans =
              getNbTrans (HandleRequest.NbTrans req) (getPacketLossPercentage req)\<rparr>"
proof -
  have "getHistoryCount req \<noteq> requiredHistoryCount"
    using assms(3) by (simp add: getHistoryCount_samePowerEntries requiredHistoryCount_def)
  with assms(1,2) show ?thesis
    by (simp add: Handle_def Let_def min_def)
qed

theorem Handle_guard_witness:
  "ADR req_history_21 \<and> nStep amd64_conv req_history_21 = - 4 \<and>
   length (samePowerEntries req_history_21) = 21 \<and>
   Handle amd64_conv req_history_21 =
     \<lparr>HandleResponse.DR = 3, HandleResponse.TxPowerIndex = 2, HandleResponse.NbTrans = 1\<rparr>"
proof -
  have a: "ADR req_history_21" by (simp add: req_history_21_def)
  have n: "nStep amd64_conv req_history_21 = - 4"
    unfolding nStep_def snrMargin_def getMaxSNR_def req_history_21_def steady_history_def
    by code_simp
  have c: "length (samePowerEntries req_history_21) = 21"
    unfolding samePowerEntries_def req_history_21_def steady_history_def by code_simp
  have l: "getPacketLossPercentage req_history_21 = Fin 0"
    unfolding getPacketLossPercentage_def req_history_21_def steady_history_def
      requiredHistoryCount_def
    by code_simp
  have t: "getNbTrans 1 (Fin 0) = 1" by code_simp
  have "Handle amd64_conv req_history_21 =
     \<lparr>HandleResponse.DR = min (HandleRequest.DR req_history_21) (MaxDR req_history_21),
      HandleResponse.TxPowerIndex = HandleRequest.TxPowerIndex req_history_21,
      HandleResponse.NbTrans =
        getNbTrans (HandleRequest.NbTrans req_history_21)
          (getPacketLossPercentage req_history_21)\<rparr>"
    by (rule Handle_guard) (simp_all add: a n c)
  then show ?thesis using a n c by (simp add: l) (simp add: req_history_21_def t)
qed

text \<open>
  C3. The retransmission count that \<^verbatim>\<open>getNbTrans\<close> selects is the entry of the loss table
  in the row of the band of the loss percentage (below 5, from 5 and below 10, from 10 and
  below 30, from 30 on) and in the column of the current count clamped into 1..3; the rows
  are 1 1 2, 1 2 3, 2 3 3 and 3 3 3. Every loss percentage that
  \<^verbatim>\<open>getPacketLossPercentage\<close> computes lies in one of the four bands. A current count of 2
  with a loss of 12 percent gives 3.
\<close>

theorem getNbTrans_table:
  "(f32_lt p (Fin 5) \<longrightarrow> getNbTrans c p = [1, 1, 2] ! nat (clamp_1_3 c - 1)) \<and>
   (f32_le (Fin 5) p \<and> f32_lt p (Fin 10) \<longrightarrow>
      getNbTrans c p = [1, 2, 3] ! nat (clamp_1_3 c - 1)) \<and>
   (f32_le (Fin 10) p \<and> f32_lt p (Fin 30) \<longrightarrow>
      getNbTrans c p = [2, 3, 3] ! nat (clamp_1_3 c - 1)) \<and>
   (f32_le (Fin 30) p \<longrightarrow> getNbTrans c p = [3, 3, 3] ! nat (clamp_1_3 c - 1)) \<and>
   (f32_lt (getPacketLossPercentage req) (Fin 5) \<or>
    f32_le (Fin 5) (getPacketLossPercentage req) \<and> f32_lt (getPacketLossPercentage req) (Fin 10) \<or>
    f32_le (Fin 10) (getPacketLossPercentage req) \<and> f32_lt (getPacketLossPercentage req) (Fin 30) \<or>
    f32_le (Fin 30) (getPacketLossPercentage req)) \<and>
   getNbTrans 2 (Fin 12) = 3"
proof -
  have col: "nat (clamp_1_3 c - 1) =
      nat ((if (if c < 1 then 1 else c) > 3 then 3 else (if c < 1 then 1 else c)) - 1)"
    by (simp add: clamp_1_3_def)
  have t: "(f32_lt p (Fin 5) \<longrightarrow> getNbTrans c p = [1, 1, 2] ! nat (clamp_1_3 c - 1)) \<and>
   (f32_le (Fin 5) p \<and> f32_lt p (Fin 10) \<longrightarrow>
      getNbTrans c p = [1, 2, 3] ! nat (clamp_1_3 c - 1)) \<and>
   (f32_le (Fin 10) p \<and> f32_lt p (Fin 30) \<longrightarrow>
      getNbTrans c p = [2, 3, 3] ! nat (clamp_1_3 c - 1)) \<and>
   (f32_le (Fin 30) p \<longrightarrow> getNbTrans c p = [3, 3, 3] ! nat (clamp_1_3 c - 1))"
    unfolding col by (cases p) (auto simp: getNbTrans_def pktLossRateTable_def Let_def)
  have ex: "getNbTrans 2 (Fin 12) = 3"
    by (simp add: getNbTrans_def pktLossRateTable_def)
  let ?l = "getPacketLossPercentage req"
  have n: "?l \<noteq> NaN" by (rule getPacketLossPercentage_not_NaN)
  have b: "f32_lt ?l (Fin 5) \<or> f32_le (Fin 5) ?l \<and> f32_lt ?l (Fin 10) \<or>
    f32_le (Fin 10) ?l \<and> f32_lt ?l (Fin 30) \<or> f32_le (Fin 30) ?l"
    using n by (cases ?l) auto
  from t b ex show ?thesis by blast
qed

theorem getNbTrans_table_witness:
  "f32_lt (Fin 3) (Fin 5) \<and> getNbTrans 3 (Fin 3) = 2 \<and>
   f32_le (Fin 5) (Fin 7) \<and> f32_lt (Fin 7) (Fin 10) \<and> getNbTrans 0 (Fin 7) = 1 \<and>
   f32_le (Fin 10) (Fin 12) \<and> f32_lt (Fin 12) (Fin 30) \<and> getNbTrans 2 (Fin 12) = 3 \<and>
   f32_le (Fin 30) PosInf \<and> getNbTrans 1 PosInf = 3"
  using getNbTrans_table [of "Fin 3" 3] getNbTrans_table [of "Fin 7" 0]
    getNbTrans_table [of "Fin 12" 2] getNbTrans_table [of PosInf 1]
  by (simp add: clamp_1_3_def)

text \<open>
  C4. With fewer than 20 history entries the loss percentage is 0. With 20 or more, and
  frame counters that grow by at least 1 from each entry to the next, it is the number of
  lost frames (the sum over the consecutive pairs of the counter delta minus one) divided
  by the length of the history, times 100. The quotient and the product are the program's
  \<^verbatim>\<open>float32\<close> operations, each rounded to the nearest value; the conversions of the two
  integers to \<^verbatim>\<open>float32\<close> are exact below \<open>2 ^ 24\<close>.
\<close>

theorem getPacketLossPercentage_value:
  "(length (UplinkHistory req) < 20 \<longrightarrow> getPacketLossPercentage req = Fin 0) \<and>
   (20 \<le> length (UplinkHistory req) \<and> successively (<) (frameCounters req) \<longrightarrow>
      getPacketLossPercentage req =
        f32_mul
          (f32_div (f32_of_int (lost_frames (frameCounters req)))
                   (f32_of_int (int (length (UplinkHistory req)))))
          (Fin 100)) \<and>
   (20 \<le> length (UplinkHistory req) \<and> successively (<) (frameCounters req) \<and>
    lost_frames (frameCounters req) < 2 ^ 24 \<and> length (UplinkHistory req) < 2 ^ 24 \<longrightarrow>
      getPacketLossPercentage req =
        f32_mul
          (round32 (of_int (lost_frames (frameCounters req)) /
                    of_nat (length (UplinkHistory req))))
          (Fin 100))"
proof -
  let ?h = "UplinkHistory req"
  let ?L = "lost_frames (frameCounters req)"
  have fc: "frameCounters req = map uint (map FCnt ?h)"
    by (simp add: frameCounters_def comp_def)
  have short: "length ?h < 20 \<Longrightarrow> getPacketLossPercentage req = Fin 0"
    by (simp add: getPacketLossPercentage_def requiredHistoryCount_def)
  have long: "getPacketLossPercentage req =
        f32_mul (f32_div (f32_of_int ?L) (f32_of_int (int (length ?h)))) (Fin 100)"
    if "20 \<le> length ?h" "successively (<) (frameCounters req)"
  proof -
    have b: "0 \<le> ?L \<and> ?L < 2 ^ 32"
      using lost_frames_uint_bound[of "map FCnt ?h"] that(2) by (simp add: fc)
    have "uint (lostPackets_loop 0 0 0 ?h) = ?L mod 2 ^ 32"
      by (simp add: lostPackets_loop_total frameCounters_def uint_word_of_int take_bit_eq_mod)
    also have "\<dots> = ?L" using b by simp
    finally have "f32_of_uint32 (lostPackets_loop 0 0 0 ?h) = f32_of_int ?L"
      by (simp add: f32_of_uint32_def f32_of_int_def)
    with that(1) show ?thesis
      by (simp add: getPacketLossPercentage_def requiredHistoryCount_def)
  qed
  have exact: "f32_div (f32_of_int ?L) (f32_of_int (int (length ?h))) =
        round32 (of_int ?L / of_nat (length ?h))"
    if "20 \<le> length ?h" "successively (<) (frameCounters req)" "?L < 2 ^ 24"
       "length ?h < 2 ^ 24"
  proof -
    have "0 \<le> ?L"
      using lost_frames_uint_bound[of "map FCnt ?h"] that(2) by (simp add: fc)
    with that(3) have 1: "f32_of_int ?L = Fin (of_int ?L)"
      unfolding f32_of_int_def by (intro round32_int_exact) simp
    have 2: "f32_of_int (int (length ?h)) = Fin (of_int (int (length ?h)))"
      unfolding f32_of_int_def using that(4) by (intro round32_int_exact) simp
    have "?h \<noteq> []" using that(1) by auto
    then show ?thesis by (simp add: 1 2)
  qed
  show ?thesis using short long exact by simp
qed

theorem getPacketLossPercentage_value_witness:
  "length (UplinkHistory req_enabled) < 20 \<and> getPacketLossPercentage req_enabled = Fin 0 \<and>
   20 \<le> length (UplinkHistory req_one_lost) \<and>
   successively (<) (frameCounters req_one_lost) \<and>
   lost_frames (frameCounters req_one_lost) = 1 \<and>
   lost_frames (frameCounters req_one_lost) < 2 ^ 24 \<and>
   length (UplinkHistory req_one_lost) < 2 ^ 24 \<and>
   getPacketLossPercentage req_one_lost = Fin 5"
proof -
  have l: "length (UplinkHistory req_one_lost) = 20"
    by (simp add: req_one_lost_def history_of_def)
  have s: "successively (<) (frameCounters req_one_lost)"
    by (simp add: frameCounters_def req_one_lost_def history_of_def)
  have f: "lost_frames (frameCounters req_one_lost) = 1"
    by (simp add: frameCounters_def req_one_lost_def history_of_def)
  have v: "f32_mul (f32_div (f32_of_int 1) (f32_of_int 20)) (Fin 100) = Fin 5"
    by code_simp
  have v': "f32_mul (round32 (1 / 20)) (Fin 100) = Fin 5"
    by code_simp
  have e: "length (UplinkHistory req_enabled) < 20" by (simp add: req_enabled_def)
  show ?thesis
    using getPacketLossPercentage_value [of req_enabled]
      getPacketLossPercentage_value [of req_one_lost] e l s f v v'
    by simp
qed

text \<open>
  C7, as amended. The number of steps is the \<^verbatim>\<open>float32\<close> quotient of the margin
  (\<open>maxSNR - RequiredSNRForDR - InstallationMargin\<close>) by 3, truncated toward zero (its
  floor when it is positive, its ceiling when it is negative), whenever that quotient is
  finite, at least \<open>- (2 ^ 63)\<close> and below \<open>2 ^ 63\<close>. \<open>maxSNR\<close> is -999 for an empty
  history; in general it is never a NaN, not below -999, not below the best SNR of any
  history entry, and is -999 or the best SNR of an entry. For an empty history whose
  margin is finite, not positive and at least \<open>- (2 ^ 63)\<close>, the number of steps is at
  most 0, the power index of the response is the request's, and the data rate of the
  response is the request's, lowered to \<open>MaxDR\<close> when ADR is enabled and it is above.
\<close>

theorem nStep_value:
  "(f32_div (snrMargin req) (Fin 3) = Fin q \<and> - (2 ^ 63) \<le> q \<and> q < 2 ^ 63 \<longrightarrow>
      nStep conv req = (if 0 \<le> q then \<lfloor>q\<rfloor> else \<lceil>q\<rceil>)) \<and>
   snrMargin req =
     f32_sub (f32_sub (getMaxSNR req) (RequiredSNRForDR req)) (InstallationMargin req) \<and>
   (UplinkHistory req = [] \<longrightarrow> getMaxSNR req = Fin (- 999)) \<and>
   getMaxSNR req \<noteq> NaN \<and>
   \<not> f32_lt (getMaxSNR req) (Fin (- 999)) \<and>
   (\<forall>m \<in> set (UplinkHistory req). \<not> f32_lt (getMaxSNR req) (MaxSNR m)) \<and>
   (getMaxSNR req = Fin (- 999) \<or> getMaxSNR req \<in> MaxSNR ` set (UplinkHistory req)) \<and>
   (UplinkHistory req = [] \<and> snrMargin req = Fin m \<and> - (2 ^ 63) \<le> m \<and> m \<le> 0 \<longrightarrow>
      nStep conv req \<le> 0 \<and>
      HandleResponse.TxPowerIndex (Handle conv req) = HandleRequest.TxPowerIndex req \<and>
      HandleResponse.DR (Handle conv req) =
        (if ADR req then min (HandleRequest.DR req) (MaxDR req) else HandleRequest.DR req))"
proof -
  have 1: "nStep conv req = (if 0 \<le> x then \<lfloor>x\<rfloor> else \<lceil>x\<rceil>)"
    if "f32_div (snrMargin req) (Fin 3) = Fin x" "- (2 ^ 63) \<le> x" "x < 2 ^ 63" for x
  proof -
    have lo: "- (2 ^ 63) \<le> trunc x"
    proof (cases "0 \<le> x")
      case True
      then have "0 \<le> trunc x" by (simp add: trunc_floor_ceiling)
      then show ?thesis by (rule order_trans[rotated]) simp
    next
      case False
      have "rat_of_int (- (2 ^ 63)) \<le> x" using that(2) by simp
      then have "- (2 ^ 63) \<le> \<lceil>x\<rceil>" by (simp only: le_ceiling_iff)
      with False show ?thesis by (simp add: trunc_floor_ceiling)
    qed
    have hi: "trunc x < 2 ^ 63"
    proof (cases "0 \<le> x")
      case True
      have "x < rat_of_int (2 ^ 63)" using that(3) by simp
      then have "\<lfloor>x\<rfloor> < 2 ^ 63" by (simp only: floor_less_iff)
      with True show ?thesis by (simp add: trunc_floor_ceiling)
    next
      case False
      then have "trunc x \<le> 0" by (simp add: trunc_nonpos)
      then show ?thesis by (rule le_less_trans) simp
    qed
    from that(1) lo hi have "nStep conv req = trunc x"
      by (simp add: nStep_def f32_to_int_def)
    then show ?thesis by (simp only: trunc_floor_ceiling)
  qed
  have 2: "snrMargin req =
     f32_sub (f32_sub (getMaxSNR req) (RequiredSNRForDR req)) (InstallationMargin req)"
    by (simp add: snrMargin_def)
  have 3: "UplinkHistory req = [] \<Longrightarrow> getMaxSNR req = Fin (- 999)"
    by (simp add: getMaxSNR_def)
  note p = getMaxSNR_loop_props[of "Fin (- 999)" "UplinkHistory req", folded getMaxSNR_def]
  have 4: "getMaxSNR req \<noteq> NaN" "\<not> f32_lt (getMaxSNR req) (Fin (- 999))" using p by simp_all
  have 5: "\<forall>m \<in> set (UplinkHistory req). \<not> f32_lt (getMaxSNR req) (MaxSNR m)" using p by simp
  have 6: "getMaxSNR req = Fin (- 999) \<or> getMaxSNR req \<in> MaxSNR ` set (UplinkHistory req)"
    using p by simp
  have 7: "nStep conv req \<le> 0 \<and>
      HandleResponse.TxPowerIndex (Handle conv req) = HandleRequest.TxPowerIndex req \<and>
      HandleResponse.DR (Handle conv req) =
        (if ADR req then min (HandleRequest.DR req) (MaxDR req) else HandleRequest.DR req)"
    if h: "UplinkHistory req = []" and m: "snrMargin req = Fin m" "- (2 ^ 63) \<le> m" "m \<le> 0"
  proof -
    have "0 \<le> - m / 3" using m(3) by simp
    moreover have "- m / 3 \<le> 2 ^ 62" using m(2) by simp
    ultimately obtain r where r: "round32 (- (- m / 3)) = Fin (- r)" "0 \<le> r" "r \<le> 2 ^ 63"
      using round32_neg_bound[of "- m / 3"] by blast
    have d: "f32_div (snrMargin req) (Fin 3) = Fin (- r)" using r(1) by (simp add: m(1))
    have "nStep conv req = (if 0 \<le> - r then \<lfloor>- r\<rfloor> else \<lceil>- r\<rceil>)"
    proof (rule 1[OF d])
      show "- (2 ^ 63) \<le> - r" using r(3) by simp
      have "- r \<le> 0" using r(2) by simp
      then show "- r < 2 ^ 63" by (rule le_less_trans) simp
    qed
    then have n: "nStep conv req \<le> 0" using r(2)
      by (auto split: if_splits simp: ceiling_le_iff floor_le_iff)
    have c: "getHistoryCount req = 0" using h by (rule getHistoryCount_empty)
    show ?thesis
    proof (cases "nStep conv req = 0")
      case True
      then show ?thesis
        by (simp add: Handle_def Let_def getIdeal_zero min_def)
    next
      case False
      with n have "nStep conv req < 0" by simp
      then show ?thesis using c
        by (simp add: Handle_def Let_def requiredHistoryCount_def min_def)
    qed
  qed
  from 1 2 3 4 5 6 7 show ?thesis by blast
qed

theorem nStep_value_witness:
  "getMaxSNR req_short_of_margin = Fin (- 10) \<and>
   last (UplinkHistory req_short_of_margin) \<in> set (UplinkHistory req_short_of_margin) \<and>
   \<not> f32_lt (getMaxSNR req_short_of_margin) (MaxSNR (last (UplinkHistory req_short_of_margin))) \<and>
   MaxSNR (hd (UplinkHistory req_short_of_margin)) = NaN \<and>
   snrMargin req_short_of_margin = Fin (- 10) \<and>
   f32_div (snrMargin req_short_of_margin) (Fin 3) = Fin (- (13981013 / 4194304)) \<and>
   - (2 ^ 63) \<le> (- (13981013 / 4194304) :: rat) \<and> (- (13981013 / 4194304) :: rat) < 2 ^ 63 \<and>
   nStep amd64_conv req_short_of_margin = - 3 \<and>
   f32_div (snrMargin req_spare_margin) (Fin 3) = Fin (9786709 / 4194304) \<and>
   - (2 ^ 63) \<le> (9786709 / 4194304 :: rat) \<and> (9786709 / 4194304 :: rat) < 2 ^ 63 \<and>
   nStep amd64_conv req_spare_margin = 2 \<and>
   UplinkHistory req_enabled = [] \<and> getMaxSNR req_enabled = Fin (- 999) \<and>
   snrMargin req_enabled = Fin (- 999) \<and> - (2 ^ 63) \<le> (- 999 :: rat) \<and> (- 999 :: rat) \<le> 0 \<and>
   nStep amd64_conv req_enabled \<le> 0 \<and>
   HandleResponse.TxPowerIndex (Handle amd64_conv req_enabled) = 2 \<and>
   HandleResponse.DR (Handle amd64_conv req_enabled) = 5"
proof -
  note A = nStep_value [of req_short_of_margin "- (13981013 / 4194304)" amd64_conv 0]
  note B = nStep_value [of req_spare_margin "9786709 / 4194304" amd64_conv 0]
  note C = nStep_value [of req_enabled 0 amd64_conv "- 999"]
  have g: "getMaxSNR req_short_of_margin = Fin (- 10)"
    by (simp add: getMaxSNR_def req_short_of_margin_def)
  have la: "last (UplinkHistory req_short_of_margin) \<in> set (UplinkHistory req_short_of_margin)"
    by (simp add: req_short_of_margin_def)
  from A la
  have ge: "\<not> f32_lt (getMaxSNR req_short_of_margin)
              (MaxSNR (last (UplinkHistory req_short_of_margin)))"
    by blast
  have hn: "MaxSNR (hd (UplinkHistory req_short_of_margin)) = NaN"
    by (simp add: req_short_of_margin_def)
  have ma: "snrMargin req_short_of_margin = Fin (- 10)"
    unfolding snrMargin_def g by (simp add: req_short_of_margin_def) code_simp
  have da: "f32_div (snrMargin req_short_of_margin) (Fin 3) = Fin (- (13981013 / 4194304))"
    unfolding ma by code_simp
  have ra: "- (2 ^ 63) \<le> (- (13981013 / 4194304) :: rat)" "(- (13981013 / 4194304) :: rat) < 2 ^ 63"
    by simp_all
  have "\<lceil>- (13981013 / 4194304) :: rat\<rceil> = - 3"
    by (rule ceiling_unique) simp_all
  then have ca: "(if 0 \<le> (- (13981013 / 4194304) :: rat) then \<lfloor>- (13981013 / 4194304) :: rat\<rfloor>
             else \<lceil>- (13981013 / 4194304) :: rat\<rceil>) = - 3"
    by simp
  from A da ra have "nStep amd64_conv req_short_of_margin =
      (if 0 \<le> (- (13981013 / 4194304) :: rat) then \<lfloor>- (13981013 / 4194304) :: rat\<rfloor>
       else \<lceil>- (13981013 / 4194304) :: rat\<rceil>)"
    by blast
  then have na: "nStep amd64_conv req_short_of_margin = - 3" unfolding ca .
  have mb: "snrMargin req_spare_margin = Fin 7"
    unfolding snrMargin_def getMaxSNR_def req_spare_margin_def by code_simp
  have db: "f32_div (snrMargin req_spare_margin) (Fin 3) = Fin (9786709 / 4194304)"
    unfolding mb by code_simp
  have rb: "- (2 ^ 63) \<le> (9786709 / 4194304 :: rat)" "(9786709 / 4194304 :: rat) < 2 ^ 63"
    by simp_all
  have "\<lfloor>9786709 / 4194304 :: rat\<rfloor> = 2"
    by (rule floor_unique) simp_all
  then have cb: "(if 0 \<le> (9786709 / 4194304 :: rat) then \<lfloor>9786709 / 4194304 :: rat\<rfloor>
             else \<lceil>9786709 / 4194304 :: rat\<rceil>) = 2"
    by simp
  from B db rb have "nStep amd64_conv req_spare_margin =
      (if 0 \<le> (9786709 / 4194304 :: rat) then \<lfloor>9786709 / 4194304 :: rat\<rfloor>
       else \<lceil>9786709 / 4194304 :: rat\<rceil>)"
    by blast
  then have nb: "nStep amd64_conv req_spare_margin = 2" unfolding cb .
  have e: "UplinkHistory req_enabled = []" by (simp add: req_enabled_def)
  from C e have c3: "getMaxSNR req_enabled = Fin (- 999)" by blast
  have me: "snrMargin req_enabled = Fin (- 999)"
    unfolding snrMargin_def getMaxSNR_def req_enabled_def by code_simp
  have re: "- (2 ^ 63) \<le> (- 999 :: rat)" "(- 999 :: rat) \<le> 0" by simp_all
  from C e me re
  have c4: "nStep amd64_conv req_enabled \<le> 0 \<and>
      HandleResponse.TxPowerIndex (Handle amd64_conv req_enabled) =
        HandleRequest.TxPowerIndex req_enabled \<and>
      HandleResponse.DR (Handle amd64_conv req_enabled) =
        (if ADR req_enabled then min (HandleRequest.DR req_enabled) (MaxDR req_enabled)
         else HandleRequest.DR req_enabled)"
    by blast
  have v: "HandleRequest.TxPowerIndex req_enabled = 2"
    "(if ADR req_enabled then min (HandleRequest.DR req_enabled) (MaxDR req_enabled)
      else HandleRequest.DR req_enabled) = 5"
    by (simp_all add: req_enabled_def)
  from c4 have c5: "nStep amd64_conv req_enabled \<le> 0 \<and>
      HandleResponse.TxPowerIndex (Handle amd64_conv req_enabled) = 2 \<and>
      HandleResponse.DR (Handle amd64_conv req_enabled) = 5"
    unfolding v .
  from g la ge hn ma da ra na db rb nb e c3 me re c5 show ?thesis by blast
qed

text \<open>
  C7, as stated, fails twice. An empty history does not make the margin non-positive:
  with a required SNR of -1015 dB and an installation margin of 10 dB the margin is 6,
  the number of steps is 2 and the data rate goes up from 0 to 2. And \<open>maxSNR\<close> is not the
  maximum over the history when every entry is below -999: for one entry at -1000 dB it
  is -999.
\<close>

theorem nStep_value_counterexample:
  "UplinkHistory req_low_required = [] \<and>
   is_float32 (RequiredSNRForDR req_low_required) \<and>
   is_float32 (InstallationMargin req_low_required) \<and>
   snrMargin req_low_required = Fin 6 \<and>
   nStep amd64_conv req_low_required = 2 \<and>
   HandleRequest.DR req_low_required = 0 \<and>
   HandleResponse.DR (Handle amd64_conv req_low_required) = 2 \<and>
   map MaxSNR (UplinkHistory req_below_floor) = [Fin (- 1000)] \<and>
   getMaxSNR req_below_floor = Fin (- 999)"
proof -
  have f: "is_float32 (Fin (- 1015))" "is_float32 (Fin 10)" by code_simp+
  have m: "snrMargin req_low_required = Fin 6"
    unfolding snrMargin_def getMaxSNR_def req_low_required_def by code_simp
  have n: "nStep amd64_conv req_low_required = 2"
    unfolding nStep_def m by code_simp
  have g: "getIdealTxPowerIndexAndDR 2 0 0 7 5 = (0, 2)"
    by (simp add: getIdealTxPowerIndexAndDR.simps adjust_def)
  have h: "HandleResponse.DR (Handle amd64_conv req_low_required) = 2"
    by (simp add: Handle_def Let_def n) (simp add: req_low_required_def g)
  have b: "getMaxSNR req_below_floor = Fin (- 999)"
    by (simp add: getMaxSNR_def req_below_floor_def)
  show ?thesis using f m n h b by (simp add: req_low_required_def req_below_floor_def)
qed

text \<open>
  C10, as amended. The lost frames are accumulated modulo \<open>2 ^ 32\<close>: every consecutive pair
  adds its counter delta minus one modulo \<open>2 ^ 32\<close> (a repeated counter adds \<open>2 ^ 32 - 1\<close>),
  and the total is the sum of the deltas minus one modulo \<open>2 ^ 32\<close>, which is the last
  counter minus the first minus the number of pairs. The loss percentage of a history of 20
  or more entries is computed from this total, and the retransmission count is 3 whenever
  that percentage is 30 or more.
\<close>

theorem lostPackets_wraps:
  "uint (lostPackets_loop 0 0 0 (UplinkHistory req)) = lost_frames (frameCounters req) mod 2 ^ 32 \<and>
   (UplinkHistory req \<noteq> [] \<longrightarrow>
      lostPackets_loop 0 0 0 (UplinkHistory req) =
        FCnt (last (UplinkHistory req)) - FCnt (hd (UplinkHistory req))
          - of_nat (length (UplinkHistory req) - 1)) \<and>
   uint (b - a - 1 :: uint32) = (uint b - uint a - 1) mod 2 ^ 32 \<and>
   uint (a - a - 1 :: uint32) = 2 ^ 32 - 1 \<and>
   (20 \<le> length (UplinkHistory req) \<longrightarrow>
      getPacketLossPercentage req =
        f32_mul
          (f32_div (f32_of_uint32 (lostPackets_loop 0 0 0 (UplinkHistory req)))
                   (f32_of_int (int (length (UplinkHistory req)))))
          (Fin 100)) \<and>
   (f32_le (Fin 30) (getPacketLossPercentage req) \<longrightarrow>
      getNbTrans c (getPacketLossPercentage req) = 3)"
proof -
  let ?h = "UplinkHistory req"
  have 1: "uint (lostPackets_loop 0 0 0 ?h) = lost_frames (frameCounters req) mod 2 ^ 32"
    by (simp add: lostPackets_loop_total frameCounters_def uint_word_of_int take_bit_eq_mod)
  have 2: "lostPackets_loop 0 0 0 ?h = FCnt (last ?h) - FCnt (hd ?h) - of_nat (length ?h - 1)"
    if ne: "?h \<noteq> []"
  proof -
    let ?cs = "map (\<lambda>m. uint (FCnt m)) ?h"
    have cs: "?cs \<noteq> []" using ne by simp
    have "lostPackets_loop 0 0 0 ?h = word_of_int (lost_frames ?cs)"
      by (rule lostPackets_loop_total)
    also have "lost_frames ?cs = last ?cs - hd ?cs - (int (length ?cs) - 1)"
      using cs by (rule lost_frames_telescope)
    also have "last ?cs = uint (FCnt (last ?h))" using ne by (simp add: last_map)
    also have "hd ?cs = uint (FCnt (hd ?h))" using ne by (simp add: hd_map)
    also have "int (length ?cs) - 1 = int (length ?h - 1)" using ne
      by (cases ?h) simp_all
    finally show ?thesis by simp
  qed
  have 5: "getPacketLossPercentage req =
        f32_mul (f32_div (f32_of_uint32 (lostPackets_loop 0 0 0 ?h))
                   (f32_of_int (int (length ?h)))) (Fin 100)"
    if "20 \<le> length ?h"
    using that by (simp add: getPacketLossPercentage_def requiredHistoryCount_def)
  have 6: "getNbTrans c p = 3" if "f32_le (Fin 30) p" for p
    using that by (cases p) (auto simp: getNbTrans_def pktLossRateTable_def Let_def nth_Cons')
  from 1 2 5 6 uint_contribution[of b a] uint_repeated[of a] show ?thesis by blast
qed

theorem lostPackets_wraps_witness:
  "UplinkHistory req_repeated \<noteq> [] \<and> 20 \<le> length (UplinkHistory req_repeated) \<and>
   lostPackets_loop 0 0 0 (UplinkHistory req_repeated) = - 19 \<and>
   uint (- 19 :: uint32) = 2 ^ 32 - 19 \<and>
   getPacketLossPercentage req_repeated = Fin 21474836480 \<and>
   f32_le (Fin 30) (getPacketLossPercentage req_repeated) \<and>
   getNbTrans 1 (getPacketLossPercentage req_repeated) = 3"
proof -
  note w = lostPackets_wraps [of req_repeated 0 0 1]
  have l: "20 \<le> length (UplinkHistory req_repeated)"
    by (simp add: req_repeated_def history_of_def)
  have ne: "UplinkHistory req_repeated \<noteq> []"
    using l by auto
  have hd: "FCnt (hd (UplinkHistory req_repeated)) = 7"
    by (simp add: req_repeated_def history_of_def numeral_eq_Suc)
  have la: "FCnt (last (UplinkHistory req_repeated)) = 7"
    by (simp add: req_repeated_def history_of_def last_map)
  have n: "length (UplinkHistory req_repeated) - 1 = 19"
    by (simp add: req_repeated_def history_of_def)
  from w ne have "lostPackets_loop 0 0 0 (UplinkHistory req_repeated) =
        FCnt (last (UplinkHistory req_repeated)) - FCnt (hd (UplinkHistory req_repeated))
          - of_nat (length (UplinkHistory req_repeated) - 1)"
    by blast
  then have lp: "lostPackets_loop 0 0 0 (UplinkHistory req_repeated) = - 19"
    unfolding hd la n by simp
  have u: "uint (- 19 :: uint32) = 2 ^ 32 - 19" by simp
  have i: "int (length (UplinkHistory req_repeated)) = 20"
    by (simp add: req_repeated_def history_of_def)
  have v: "f32_mul (f32_div (f32_of_uint32 (- 19)) (f32_of_int 20)) (Fin 100) = Fin 21474836480"
    by code_simp
  from w l have "getPacketLossPercentage req_repeated =
        f32_mul
          (f32_div (f32_of_uint32 (lostPackets_loop 0 0 0 (UplinkHistory req_repeated)))
                   (f32_of_int (int (length (UplinkHistory req_repeated)))))
          (Fin 100)"
    by blast
  then have p: "getPacketLossPercentage req_repeated = Fin 21474836480"
    unfolding lp i v .
  have b: "f32_le (Fin 30) (getPacketLossPercentage req_repeated)"
    unfolding p by simp
  from w b have t: "getNbTrans 1 (getPacketLossPercentage req_repeated) = 3" by blast
  from ne l lp u p b t show ?thesis by blast
qed

text \<open>
  C10, as stated, fails: a pair with a repeated counter does not force the last band. In
  the history with the counters 0, 0, 2, 3, \<dots>, 19 the repeated pair adds \<open>2 ^ 32 - 1\<close>
  and the next pair adds 1, the total wraps to 0, the loss percentage is 0 and the
  retransmission count stays 1.
\<close>

theorem lostPackets_wraps_counterexample:
  "length (UplinkHistory req_wrapped) = 20 \<and>
   FCnt (UplinkHistory req_wrapped ! 1) = FCnt (UplinkHistory req_wrapped ! 0) \<and>
   lostPackets_loop 0 0 0 (UplinkHistory req_wrapped) = 0 \<and>
   getPacketLossPercentage req_wrapped = Fin 0 \<and>
   HandleResponse.NbTrans (Handle amd64_conv req_wrapped) = 1"
proof -
  have l: "length (UplinkHistory req_wrapped) = 20"
    by (simp add: req_wrapped_def history_of_def)
  have r: "FCnt (UplinkHistory req_wrapped ! 1) = FCnt (UplinkHistory req_wrapped ! 0)"
    by (simp add: req_wrapped_def history_of_def)
  have lp: "lostPackets_loop 0 0 0 (UplinkHistory req_wrapped) = 0"
    by (simp add: req_wrapped_def history_of_def)
  have v: "f32_mul (f32_div (f32_of_uint32 0) (f32_of_int 20)) (Fin 100) = Fin 0"
    by code_simp
  have p: "getPacketLossPercentage req_wrapped = Fin 0"
    using l lp v by (simp add: getPacketLossPercentage_def requiredHistoryCount_def)
  have t: "getNbTrans 1 (Fin 0) = 1" by code_simp
  have nb: "HandleRequest.NbTrans req_wrapped = 1" "ADR req_wrapped"
    by (simp_all add: req_wrapped_def)
  have "HandleResponse.NbTrans (Handle amd64_conv req_wrapped) = 1"
    by (simp add: Handle_def Let_def p nb t split: prod.splits)
  with l r lp p show ?thesis by simp
qed

end
